theory Spec2Isabelle
  imports Main
begin

section \<open>Strings, bytes and exceptions\<close>

text \<open>
  A Python \<^verbatim>\<open>str\<close> is a sequence of Unicode code points, so a string is a list of
  natural numbers, one per code point (a non-ASCII character is one element, as it is
  for \<^verbatim>\<open>re.sub\<close>). \<open>str\<close> turns a literal into such a list. A \<^verbatim>\<open>bytes\<close> value is
  a list of numbers as well; the program never looks inside one.
\<close>

type_synonym pystr = "nat list"
type_synonym bytes = "nat list"

definition ord :: "char \<Rightarrow> nat" where
  "ord c = of_char c"

definition str :: "string \<Rightarrow> pystr" where
  "str s = map ord s"

text \<open>
  The exception classes that can reach the code under study. \<open>request_error\<close> lists
  the subclasses of \<^verbatim>\<open>requests.exceptions.RequestException\<close> that \<^verbatim>\<open>requests.get\<close>,
  \<^verbatim>\<open>raise_for_status\<close> and \<^verbatim>\<open>iter_content\<close> raise: the library wraps every transport
  failure into one of them.
\<close>

datatype request_error = ConnectionError | HTTPError | ChunkedEncodingError

datatype exn =
    RequestException request_error
  | BadZipFile
  | RuntimeError
  | NotImplementedError
  | KeyError
  | ValueError
  | FileNotFoundError
  | OSError
  | TimeoutException
  | NoSuchElementException
  | SystemExit

fun is_RequestException :: "exn \<Rightarrow> bool" where
  "is_RequestException (RequestException _) = True"
| "is_RequestException _ = False"

section \<open>sanitize_filename\<close>

text \<open>
  \<^verbatim>\<open>re.sub(r'[^a-zA-Z0-9_.-]', '_', name).lower()\<close>

  \<open>in_class\<close> is the character class \<^verbatim>\<open>[a-zA-Z0-9_.-]\<close>. \<open>lower_cp\<close> is
  \<^verbatim>\<open>str.lower\<close> on one code point: exact on ASCII, and the identity elsewhere.
  \<^verbatim>\<open>sanitize_filename\<close> lowers the output of \<^verbatim>\<open>re.sub\<close>, which is ASCII only, and the
  other use, \<^verbatim>\<open>f.lower().endswith('.pdf')\<close>, depends only on which code points lower
  to one of \<^verbatim>\<open>.\<close>, \<^verbatim>\<open>p\<close>, \<^verbatim>\<open>d\<close>, \<^verbatim>\<open>f\<close>: in Unicode these are the ASCII ones alone.
\<close>

definition in_class :: "nat \<Rightarrow> bool" where
  "in_class c \<longleftrightarrow>
     (ord CHR ''a'' \<le> c \<and> c \<le> ord CHR ''z'') \<or>
     (ord CHR ''A'' \<le> c \<and> c \<le> ord CHR ''Z'') \<or>
     (ord CHR ''0'' \<le> c \<and> c \<le> ord CHR ''9'') \<or>
     c = ord CHR ''_'' \<or> c = ord CHR ''.'' \<or> c = ord CHR ''-''"

definition re_sub_underscore :: "pystr \<Rightarrow> pystr" where
  "re_sub_underscore name = map (\<lambda>c. if in_class c then c else ord CHR ''_'') name"

definition lower_cp :: "nat \<Rightarrow> nat" where
  "lower_cp c = (if ord CHR ''A'' \<le> c \<and> c \<le> ord CHR ''Z'' then c + 32 else c)"

definition lower :: "pystr \<Rightarrow> pystr" where
  "lower s = map lower_cp s"

definition sanitize_filename :: "pystr \<Rightarrow> pystr" where
  "sanitize_filename name = lower (re_sub_underscore name)"

text \<open>The output alphabet the specification names: \<^verbatim>\<open>[a-z0-9_.-]\<close>.\<close>

definition in_lower_class :: "nat \<Rightarrow> bool" where
  "in_lower_class c \<longleftrightarrow>
     (ord CHR ''a'' \<le> c \<and> c \<le> ord CHR ''z'') \<or>
     (ord CHR ''0'' \<le> c \<and> c \<le> ord CHR ''9'') \<or>
     c = ord CHR ''_'' \<or> c = ord CHR ''.'' \<or> c = ord CHR ''-''"

section \<open>The world outside the program\<close>

text \<open>
  What the network, the zip library, the hash function and the browser session answer
  is not computed by the program: it is an input of the model, collected in \<open>world\<close>.
  The local file operations of \<^verbatim>\<open>download_and_extract\<close> (\<^verbatim>\<open>os.makedirs\<close>, \<^verbatim>\<open>open\<close>,
  \<^verbatim>\<open>write\<close>, \<^verbatim>\<open>os.remove\<close>) are taken to succeed, and so are starting and closing the
  browser session; directories are not represented. Writing a manifest file can fail.
\<close>

text \<open>
  \<^verbatim>\<open>requests.get(url, stream=True)\<close> either raises, or gives a response with a status
  code whose body \<^verbatim>\<open>iter_content\<close> delivers as a sequence of chunks, ended normally or
  by an exception after the chunks delivered so far.
\<close>

datatype http_response =
    Get_raises request_error
  | Response nat "bytes list" "request_error option"

text \<open>
  A member of a zip archive as \<^verbatim>\<open>zipfile\<close> shows it: its name, the uncompressed size
  its directory record declares, and what reading it gives. \<^verbatim>\<open>ZipFile.open\<close> can raise
  (\<^verbatim>\<open>RuntimeError\<close> for an encrypted member, \<^verbatim>\<open>NotImplementedError\<close> for an unknown
  compression method, \<^verbatim>\<open>BadZipFile\<close> for a bad local header), and so can \<^verbatim>\<open>read\<close>
  (\<^verbatim>\<open>BadZipFile\<close> for a bad CRC-32).
\<close>

datatype member_body = Body bytes | Open_raises exn | Read_raises exn

record zip_info =
  filename :: pystr
  file_size :: nat
  body :: member_body

text \<open>
  What lines 91-117 find for one book: a wait, a lookup or a selection raised (the wait
  of line 106 raises \<^verbatim>\<open>TimeoutException\<close> when no download link appears within ten
  seconds); or \<^verbatim>\<open>soup.find\<close> returned \<^verbatim>\<open>None\<close>; or the anchor was found, with its
  \<^verbatim>\<open>href\<close> attribute if it has one.
\<close>

datatype detail =
    Navigation_raises exn
  | No_download_link
  | Download_link "pystr option"

text \<open>
  What writing one manifest file comes to (lines 202-203 and 205-206): the document is
  written; or \<^verbatim>\<open>open(path, 'w')\<close> raises and the file is as it was; or the file is
  opened, and so emptied, and \<^verbatim>\<open>json.dump\<close> raises before the document is complete.
\<close>

datatype write_outcome = Written | Cannot_open exn | Cannot_write exn

text \<open>
  \<open>http_get\<close> answers a URL; \<open>zip_read\<close> parses the bytes of an archive (\<open>None\<close> for
  \<^verbatim>\<open>BadZipFile\<close>); \<open>subject_options\<close> stands for lines 59-67 on a class name and
  \<open>book_options\<close> for lines 70-75 on a class name and a subject, each giving the texts
  of the options or the exception raised; \<open>detail_view\<close> takes class name, subject and
  title; \<open>manifest_write\<close> takes the path of a manifest file.
\<close>

record world =
  http_get :: "pystr \<Rightarrow> http_response"
  zip_read :: "bytes \<Rightarrow> zip_info list option"
  sha256_hexdigest :: "bytes \<Rightarrow> pystr"
  subject_options :: "pystr \<Rightarrow> exn + pystr list"
  book_options :: "pystr \<Rightarrow> pystr \<Rightarrow> exn + pystr list"
  detail_view :: "pystr \<Rightarrow> pystr \<Rightarrow> pystr \<Rightarrow> detail"
  manifest_write :: "pystr \<Rightarrow> write_outcome"

section \<open>Program state: files and console output\<close>

record metadata =
  md_id :: pystr
  md_pdf_path :: pystr
  md_sha256 :: pystr

record book_entry =
  be_id :: pystr
  be_class :: int
  be_subject :: pystr
  be_title :: pystr
  be_pdf_path :: pystr
  be_download_url :: pystr

text \<open>
  A file holds bytes, or one of the two JSON documents \<^verbatim>\<open>json.dump\<close> writes, or the
  beginning of a JSON document whose writing broke off; a JSON document is kept as the
  value that was serialised.
\<close>

datatype file_data =
    Bytes bytes
  | Books_json "book_entry list"
  | Hashes_json "(pystr \<times> pystr) list"
  | Unfinished_json

datatype event =
    Starting_scraper pystr
  | Gathering
  | Found nat
  | Processing pystr pystr
  | No_link_skipping pystr
  | Downloading pystr
  | Extracting pystr
  | No_pdf_found pystr
  | Saved_pdf pystr
  | Failed_download pystr exn
  | Failed_open_zip
  | Writing_manifests
  | Manifests_created
  | Scraping_finished

record state =
  files :: "pystr \<Rightarrow> file_data option"
  printed :: "event list"

definition say :: "event \<Rightarrow> state \<Rightarrow> state" where
  "say e st = st\<lparr>printed := printed st @ [e]\<rparr>"

text \<open>\<^verbatim>\<open>open(path, 'wb')\<close> and \<^verbatim>\<open>open(path, 'w')\<close> create the file or truncate it.\<close>

definition open_w :: "pystr \<Rightarrow> state \<Rightarrow> state" where
  "open_w path st = st\<lparr>files := (files st)(path \<mapsto> Bytes [])\<rparr>"

text \<open>\<^verbatim>\<open>f.write(chunk)\<close> on a file opened for writing appends to what was written so far.\<close>

definition f_write :: "pystr \<Rightarrow> bytes \<Rightarrow> state \<Rightarrow> state" where
  "f_write path chunk st =
     (case files st path of
        Some (Bytes b) \<Rightarrow> st\<lparr>files := (files st)(path \<mapsto> Bytes (b @ chunk))\<rparr>
      | _ \<Rightarrow> st\<lparr>files := (files st)(path \<mapsto> Bytes chunk)\<rparr>)"

definition os_path_exists :: "pystr \<Rightarrow> state \<Rightarrow> bool" where
  "os_path_exists path st \<longleftrightarrow> files st path \<noteq> None"

definition os_remove :: "pystr \<Rightarrow> state \<Rightarrow> state" where
  "os_remove path st = st\<lparr>files := (files st)(path := None)\<rparr>"

text \<open>\<^verbatim>\<open>os.path.join(a, b)\<close> of \<^verbatim>\<open>posixpath\<close>, for two components.\<close>

definition os_path_join :: "pystr \<Rightarrow> pystr \<Rightarrow> pystr" where
  "os_path_join a b =
     (if b \<noteq> [] \<and> hd b = ord CHR ''/'' then b
      else if a = [] \<or> last a = ord CHR ''/'' then a @ b
      else a @ str ''/'' @ b)"

section \<open>download_and_extract\<close>

definition endswith :: "pystr \<Rightarrow> pystr \<Rightarrow> bool" where
  "endswith s suffix \<longleftrightarrow>
     length suffix \<le> length s \<and> drop (length s - length suffix) s = suffix"

text \<open>\<^verbatim>\<open>f.lower().endswith('.pdf')\<close>\<close>

definition is_pdf_name :: "pystr \<Rightarrow> bool" where
  "is_pdf_name f \<longleftrightarrow> endswith (lower f) (str ''.pdf'')"

text \<open>
  \<^verbatim>\<open>namelist()\<close> lists the names of the directory records in archive order.
  \<^verbatim>\<open>getinfo(name)\<close> looks the name up in the dictionary \<^verbatim>\<open>NameToInfo\<close>, which
  \<^verbatim>\<open>zipfile\<close> fills record by record: of two records with one name the later one
  stays. A name that is absent raises \<^verbatim>\<open>KeyError\<close>.
\<close>

definition namelist :: "zip_info list \<Rightarrow> pystr list" where
  "namelist zs = map filename zs"

definition getinfo :: "zip_info list \<Rightarrow> pystr \<Rightarrow> exn + zip_info" where
  "getinfo zs name =
     (case find (\<lambda>z. filename z = name) (rev zs) of
        None \<Rightarrow> Inl KeyError
      | Some z \<Rightarrow> Inr z)"

text \<open>
  \<^verbatim>\<open>max(xs, key=k)\<close>: the first element is the candidate, and a later element replaces
  it only when its key is strictly greater. An empty argument raises \<^verbatim>\<open>ValueError\<close>.
\<close>

fun max_loop :: "('a \<Rightarrow> exn + nat) \<Rightarrow> 'a \<Rightarrow> nat \<Rightarrow> 'a list \<Rightarrow> exn + 'a" where
  "max_loop key best best_key [] = Inr best"
| "max_loop key best best_key (x # xs) =
     (case key x of
        Inl e \<Rightarrow> Inl e
      | Inr k \<Rightarrow> if best_key < k then max_loop key x k xs
                 else max_loop key best best_key xs)"

definition py_max :: "('a \<Rightarrow> exn + nat) \<Rightarrow> 'a list \<Rightarrow> exn + 'a" where
  "py_max key xs =
     (case xs of
        [] \<Rightarrow> Inl ValueError
      | x # rest \<Rightarrow> (case key x of Inl e \<Rightarrow> Inl e | Inr k \<Rightarrow> max_loop key x k rest))"

text \<open>\<^verbatim>\<open>lambda f: zip_ref.getinfo(f).file_size\<close>\<close>

definition size_key :: "zip_info list \<Rightarrow> pystr \<Rightarrow> exn + nat" where
  "size_key zs f = (case getinfo zs f of Inl e \<Rightarrow> Inl e | Inr z \<Rightarrow> Inr (file_size z))"

text \<open>Lines 168 and 173: the names that end in \<^verbatim>\<open>.pdf\<close>, and the one chosen among them.\<close>

definition pdf_files :: "zip_info list \<Rightarrow> pystr list" where
  "pdf_files zs = filter is_pdf_name (namelist zs)"

definition main_pdf_name :: "zip_info list \<Rightarrow> exn + pystr" where
  "main_pdf_name zs = py_max (size_key zs) (pdf_files zs)"

text \<open>
  Lines 147-156: the names derived from class, subject and title. \<^verbatim>\<open>os.makedirs\<close> of
  line 148 creates directories only.
\<close>

definition output_dir :: "pystr \<Rightarrow> pystr" where
  "output_dir class_num = os_path_join (str ''downloads'') (str ''class_'' @ class_num)"

definition book_id :: "pystr \<Rightarrow> pystr \<Rightarrow> pystr \<Rightarrow> pystr" where
  "book_id class_num subject title =
     str ''c'' @ class_num @ str ''_'' @ sanitize_filename subject @ str ''_'' @
     sanitize_filename title"

definition pdf_filename :: "pystr \<Rightarrow> pystr \<Rightarrow> pystr" where
  "pdf_filename subject title =
     sanitize_filename subject @ str ''_'' @ sanitize_filename title @ str ''.pdf''"

definition pdf_path :: "pystr \<Rightarrow> pystr \<Rightarrow> pystr \<Rightarrow> pystr" where
  "pdf_path class_num subject title =
     os_path_join (output_dir class_num) (pdf_filename subject title)"

definition zip_path :: "pystr \<Rightarrow> pystr" where
  "zip_path class_num = os_path_join (output_dir class_num) (str ''temp.zip'')"

text \<open>
  Lines 160-164: the response is checked, the temporary file is opened and the chunks
  are written to it one by one. The result is the exception that ended the block, if any.
\<close>

fun write_chunks :: "pystr \<Rightarrow> bytes list \<Rightarrow> state \<Rightarrow> state" where
  "write_chunks path [] st = st"
| "write_chunks path (chunk # chunks) st = write_chunks path chunks (f_write path chunk st)"

definition fetch :: "world \<Rightarrow> pystr \<Rightarrow> pystr \<Rightarrow> state \<Rightarrow> state \<times> exn option" where
  "fetch W url zpath st =
     (case http_get W url of
        Get_raises e \<Rightarrow> (st, Some (RequestException e))
      | Response status chunks err \<Rightarrow>
          if 400 \<le> status \<and> status < 600 then (st, Some (RequestException HTTPError))
          else (write_chunks zpath chunks (open_w zpath st), map_option RequestException err))"

text \<open>\<^verbatim>\<open>zipfile.ZipFile(zip_path, 'r')\<close>: the file is read and its directory parsed.\<close>

definition ZipFile :: "world \<Rightarrow> pystr \<Rightarrow> state \<Rightarrow> exn + zip_info list" where
  "ZipFile W zpath st =
     (case files st zpath of
        None \<Rightarrow> Inl FileNotFoundError
      | Some (Bytes b) \<Rightarrow> (case zip_read W b of None \<Rightarrow> Inl BadZipFile | Some zs \<Rightarrow> Inr zs)
      | Some _ \<Rightarrow> Inl BadZipFile)"

text \<open>\<^verbatim>\<open>zip_ref.open(name)\<close> and \<^verbatim>\<open>source.read()\<close>\<close>

definition zip_open :: "zip_info list \<Rightarrow> pystr \<Rightarrow> exn + member_body" where
  "zip_open zs name =
     (case getinfo zs name of
        Inl e \<Rightarrow> Inl e
      | Inr z \<Rightarrow> (case body z of Open_raises e \<Rightarrow> Inl e | src \<Rightarrow> Inr src))"

fun source_read :: "member_body \<Rightarrow> exn + bytes" where
  "source_read (Body b) = Inr b"
| "source_read (Read_raises e) = Inl e"
| "source_read (Open_raises e) = Inl e"

text \<open>
  Lines 159-187, the body of the \<^verbatim>\<open>try\<close>. In the \<^verbatim>\<open>with\<close> statement of line 175 the
  member is opened first and the destination second, and only then is the member read.
\<close>

definition try_body ::
  "world \<Rightarrow> pystr \<Rightarrow> pystr \<Rightarrow> pystr \<Rightarrow> pystr \<Rightarrow> state \<Rightarrow> state \<times> (exn + metadata option)"
where
  "try_body W url bid ppath zpath st0 =
     (case fetch W url zpath (say (Downloading url) st0) of
        (st1, Some e) \<Rightarrow> (st1, Inl e)
      | (st1, None) \<Rightarrow>
          (let st2 = say (Extracting zpath) st1 in
           case ZipFile W zpath st2 of
             Inl e \<Rightarrow> (st2, Inl e)
           | Inr zs \<Rightarrow>
               if pdf_files zs = [] then (say (No_pdf_found zpath) st2, Inr None)
               else
                 (case main_pdf_name zs of
                    Inl e \<Rightarrow> (st2, Inl e)
                  | Inr name \<Rightarrow>
                      (case zip_open zs name of
                         Inl e \<Rightarrow> (st2, Inl e)
                       | Inr source \<Rightarrow>
                           (let st3 = open_w ppath st2 in
                            case source_read source of
                              Inl e \<Rightarrow> (st3, Inl e)
                            | Inr pdf_content \<Rightarrow>
                                (let st4 = f_write ppath pdf_content st3;
                                     sha256_hash = sha256_hexdigest W pdf_content
                                 in (say (Saved_pdf ppath) st4,
                                     Inr (Some \<lparr>md_id = bid, md_pdf_path = ppath,
                                                md_sha256 = sha256_hash\<rparr>))))))))"

text \<open>Lines 189-194, the two \<^verbatim>\<open>except\<close> clauses in their order; anything else propagates.\<close>

definition except_clauses ::
  "pystr \<Rightarrow> state \<times> (exn + metadata option) \<Rightarrow> state \<times> (exn + metadata option)"
where
  "except_clauses url res =
     (case res of
        (st, Inl e) \<Rightarrow>
          if is_RequestException e then (say (Failed_download url e) st, Inr None)
          else if e = BadZipFile then (say Failed_open_zip st, Inr None)
          else (st, Inl e)
      | (st, Inr v) \<Rightarrow> (st, Inr v))"

text \<open>Lines 195-197, the \<^verbatim>\<open>finally\<close> clause.\<close>

definition finally_remove :: "pystr \<Rightarrow> state \<Rightarrow> state" where
  "finally_remove zpath st = (if os_path_exists zpath st then os_remove zpath st else st)"

definition download_and_extract ::
  "world \<Rightarrow> state \<Rightarrow> pystr \<Rightarrow> pystr \<Rightarrow> pystr \<Rightarrow> pystr \<Rightarrow> state \<times> (exn + metadata option)"
where
  "download_and_extract W st url class_num subject title =
     (case except_clauses url
             (try_body W url (book_id class_num subject title)
                (pdf_path class_num subject title) (zip_path class_num) st) of
        (st', r) \<Rightarrow> (finally_remove (zip_path class_num) st', r))"

section \<open>main\<close>

definition CLASS_MAP :: "(pystr \<times> pystr) list" where
  "CLASS_MAP =
     [(str ''1'', str ''Class I''), (str ''2'', str ''Class II''),
      (str ''3'', str ''Class III''), (str ''4'', str ''Class IV''),
      (str ''5'', str ''Class V''), (str ''6'', str ''Class VI''),
      (str ''7'', str ''Class VII''), (str ''8'', str ''Class VIII''),
      (str ''9'', str ''Class IX''), (str ''10'', str ''Class X''),
      (str ''11'', str ''Class XI''), (str ''12'', str ''Class XII'')]"

text \<open>
  \<^verbatim>\<open>parse_arguments\<close> on the value given for \<^verbatim>\<open>--class\<close>: only the keys of
  \<^verbatim>\<open>CLASS_MAP\<close> are accepted (\<^verbatim>\<open>choices\<close>); \<^verbatim>\<open>argparse\<close> ends the process on any other
  value.
\<close>

definition parse_arguments :: "pystr \<Rightarrow> exn + pystr" where
  "parse_arguments class_arg =
     (if class_arg \<in> set (map fst CLASS_MAP) then Inr class_arg else Inl SystemExit)"

text \<open>
  \<^verbatim>\<open>int(s)\<close> on a string of ASCII decimal digits; on anything else the model raises
  \<^verbatim>\<open>ValueError\<close> (the signs, blanks and underscores \<^verbatim>\<open>int\<close> also accepts do not occur
  in a key of \<^verbatim>\<open>CLASS_MAP\<close>).
\<close>

definition is_digit :: "nat \<Rightarrow> bool" where
  "is_digit c \<longleftrightarrow> ord CHR ''0'' \<le> c \<and> c \<le> ord CHR ''9''"

definition py_int :: "pystr \<Rightarrow> exn + int" where
  "py_int s =
     (if s \<noteq> [] \<and> list_all is_digit s
      then Inr (foldl (\<lambda>n c. 10 * n + int (c - ord CHR ''0'')) 0 s)
      else Inl ValueError)"

text \<open>
  \<^verbatim>\<open>d[k] = v\<close> on a dictionary, kept as an association list in insertion order: a key
  that is present keeps its place and gets the new value.
\<close>

fun dict_set :: "'k \<Rightarrow> 'v \<Rightarrow> ('k \<times> 'v) list \<Rightarrow> ('k \<times> 'v) list" where
  "dict_set k v [] = [(k, v)]"
| "dict_set k v ((k', v') # d) =
     (if k' = k then (k, v) # d else (k', v') # dict_set k v d)"

text \<open>Line 118: \<^verbatim>\<open>download_url = f"https://ncert.nic.in/{relative_url}"\<close>\<close>

definition download_url :: "pystr \<Rightarrow> pystr" where
  "download_url relative_url = str ''https://ncert.nic.in/'' @ relative_url"

text \<open>Lines 69-78: the books of every subject, in the order the interface lists them.\<close>

fun gather_books ::
  "world \<Rightarrow> pystr \<Rightarrow> pystr list \<Rightarrow> (pystr \<times> pystr) list \<Rightarrow> exn + (pystr \<times> pystr) list"
where
  "gather_books W class_name [] books_to_process = Inr books_to_process"
| "gather_books W class_name (subject_name # rest) books_to_process =
     (case book_options W class_name subject_name of
        Inl e \<Rightarrow> Inl e
      | Inr titles \<Rightarrow>
          gather_books W class_name rest
            (books_to_process @ map (\<lambda>book_title. (subject_name, book_title)) titles))"

text \<open>
  Lines 87-132, one iteration of the loop over \<^verbatim>\<open>books_to_process\<close>. The result is the
  exception that left the loop, or the two accumulators \<^verbatim>\<open>books_to_track\<close> and
  \<^verbatim>\<open>hashes_data\<close>. Nothing in the loop catches an exception.
\<close>

definition process_book ::
  "world \<Rightarrow> pystr \<Rightarrow> pystr \<Rightarrow> pystr \<times> pystr \<Rightarrow> state \<Rightarrow> book_entry list \<Rightarrow>
   (pystr \<times> pystr) list \<Rightarrow> state \<times> (exn + book_entry list \<times> (pystr \<times> pystr) list)"
where
  "process_book W class_number class_name book st books_to_track hashes_data =
     (case book of (subject_name, book_title) \<Rightarrow>
        (let st1 = say (Processing subject_name book_title) st in
         case detail_view W class_name subject_name book_title of
           Navigation_raises e \<Rightarrow> (st1, Inl e)
         | No_download_link \<Rightarrow>
             (say (No_link_skipping book_title) st1, Inr (books_to_track, hashes_data))
         | Download_link None \<Rightarrow> (st1, Inl KeyError)
         | Download_link (Some relative_url) \<Rightarrow>
             (case download_and_extract W st1 (download_url relative_url) class_number
                     subject_name book_title of
                (st2, Inl e) \<Rightarrow> (st2, Inl e)
              | (st2, Inr None) \<Rightarrow> (st2, Inr (books_to_track, hashes_data))
              | (st2, Inr (Some metadata)) \<Rightarrow>
                  (case py_int class_number of
                     Inl e \<Rightarrow> (st2, Inl e)
                   | Inr n \<Rightarrow>
                       (st2,
                        Inr (books_to_track @
                               [\<lparr>be_id = md_id metadata, be_class = n,
                                 be_subject = subject_name, be_title = book_title,
                                 be_pdf_path = md_pdf_path metadata,
                                 be_download_url = download_url relative_url\<rparr>],
                             dict_set (md_id metadata) (md_sha256 metadata) hashes_data))))))"

fun process_books ::
  "world \<Rightarrow> pystr \<Rightarrow> pystr \<Rightarrow> (pystr \<times> pystr) list \<Rightarrow> state \<Rightarrow> book_entry list \<Rightarrow>
   (pystr \<times> pystr) list \<Rightarrow> state \<times> (exn + book_entry list \<times> (pystr \<times> pystr) list)"
where
  "process_books W class_number class_name [] st books_to_track hashes_data =
     (st, Inr (books_to_track, hashes_data))"
| "process_books W class_number class_name (book # rest) st books_to_track hashes_data =
     (case process_book W class_number class_name book st books_to_track hashes_data of
        (st', Inl e) \<Rightarrow> (st', Inl e)
      | (st', Inr (books_to_track', hashes_data')) \<Rightarrow>
          process_books W class_number class_name rest st' books_to_track' hashes_data')"

text \<open>
  Lines 202-203 and 205-206: one \<^verbatim>\<open>with open(path, 'w') as f: json.dump(doc, f)\<close>. The
  result is the exception raised, if any.
\<close>

definition dump_json :: "world \<Rightarrow> pystr \<Rightarrow> file_data \<Rightarrow> state \<Rightarrow> state \<times> exn option" where
  "dump_json W path doc st =
     (case manifest_write W path of
        Cannot_open e \<Rightarrow> (st, Some e)
      | Cannot_write e \<Rightarrow> (st\<lparr>files := (files st)(path \<mapsto> Unfinished_json)\<rparr>, Some e)
      | Written \<Rightarrow> (st\<lparr>files := (files st)(path \<mapsto> doc)\<rparr>, None))"

text \<open>
  Lines 199-208: the catalogue list is written first and the hash index second; nothing
  catches an exception between the two.
\<close>

definition write_manifests ::
  "world \<Rightarrow> book_entry list \<Rightarrow> (pystr \<times> pystr) list \<Rightarrow> state \<Rightarrow> state \<times> exn option"
where
  "write_manifests W books_to_track hashes_data st =
     (case dump_json W (str ''books_to_track.json'') (Books_json books_to_track)
             (say Writing_manifests st) of
        (st1, Some e) \<Rightarrow> (st1, Some e)
      | (st1, None) \<Rightarrow>
          (case dump_json W (str ''hashes.json'') (Hashes_json hashes_data) st1 of
             (st2, Some e) \<Rightarrow> (st2, Some e)
           | (st2, None) \<Rightarrow> (say Manifests_created st2, None)))"

text \<open>
  Lines 52-135, the body of the \<^verbatim>\<open>try\<close> of \<^verbatim>\<open>main\<close>: discovery, the loop, the manifest.
  \<open>subject_options\<close> stands for lines 59-67; an exception there or in a later wait
  leaves the block.
\<close>

definition main_try :: "world \<Rightarrow> pystr \<Rightarrow> pystr \<Rightarrow> state \<Rightarrow> state \<times> (exn + unit)" where
  "main_try W class_number class_name st =
     (let st1 = say Gathering st in
      case subject_options W class_name of
        Inl e \<Rightarrow> (st1, Inl e)
      | Inr subjects \<Rightarrow>
          (case gather_books W class_name subjects [] of
             Inl e \<Rightarrow> (st1, Inl e)
           | Inr books_to_process \<Rightarrow>
               (case process_books W class_number class_name books_to_process
                       (say (Found (length books_to_process)) st1) [] [] of
                  (st2, Inl e) \<Rightarrow> (st2, Inl e)
                | (st2, Inr (books_to_track, hashes_data)) \<Rightarrow>
                    (case write_manifests W books_to_track hashes_data st2 of
                       (st3, Some e) \<Rightarrow> (st3, Inl e)
                     | (st3, None) \<Rightarrow> (st3, Inr ())))))"

text \<open>
  \<^verbatim>\<open>main\<close>, given the value of \<^verbatim>\<open>--class\<close>: the \<^verbatim>\<open>try\<close> has a \<^verbatim>\<open>finally\<close> clause and
  no \<^verbatim>\<open>except\<close> clause, so an exception of the body ends the run once the session is
  closed and \<^verbatim>\<open>Scraping finished.\<close> is printed.
\<close>

definition main :: "world \<Rightarrow> pystr \<Rightarrow> state \<Rightarrow> state \<times> (exn + unit)" where
  "main W class_arg st =
     (case parse_arguments class_arg of
        Inl e \<Rightarrow> (st, Inl e)
      | Inr class_number \<Rightarrow>
          (case map_of CLASS_MAP class_number of
             None \<Rightarrow> (st, Inl KeyError)
           | Some class_name \<Rightarrow>
               (case main_try W class_number class_name
                       (say (Starting_scraper class_name) st) of
                  (st', r) \<Rightarrow> (say Scraping_finished st', r))))"

section \<open>Notions of the specification\<close>

text \<open>
  The primary content file as the specification words it: entry \<open>i\<close> of the archive has a
  name ending in the content extension, no such entry is larger, and every such entry
  before it is strictly smaller.
\<close>

definition is_primary :: "zip_info list \<Rightarrow> nat \<Rightarrow> bool" where
  "is_primary zs i \<longleftrightarrow>
     i < length zs \<and> is_pdf_name (filename (zs ! i)) \<and>
     list_all (\<lambda>z. is_pdf_name (filename z) \<longrightarrow> file_size z \<le> file_size (zs ! i)) zs \<and>
     list_all (\<lambda>z. is_pdf_name (filename z) \<longrightarrow> file_size z < file_size (zs ! i)) (take i zs)"

text \<open>
  The fetch, in short: the error that ends it (a transport error or a status from 400 to
  599), or the bytes of the archive when it runs to its end.
\<close>

fun fetch_outcome :: "http_response \<Rightarrow> request_error + bytes" where
  "fetch_outcome (Get_raises e) = Inl e"
| "fetch_outcome (Response status chunks err) =
     (if 400 \<le> status \<and> status < 600 then Inl HTTPError
      else case err of Some e \<Rightarrow> Inl e | None \<Rightarrow> Inr (concat chunks))"

text \<open>
  The member that processing opens, if it gets that far: the fetch ran to its end, the
  archive was readable and a primary content file was chosen in it.
\<close>

definition selected_member :: "world \<Rightarrow> pystr \<Rightarrow> zip_info option" where
  "selected_member W url =
     (case fetch_outcome (http_get W url) of
        Inl e \<Rightarrow> None
      | Inr b \<Rightarrow>
          (case zip_read W b of
             None \<Rightarrow> None
           | Some zs \<Rightarrow>
               if pdf_files zs = [] then None
               else (case main_pdf_name zs of
                       Inl e \<Rightarrow> None
                     | Inr name \<Rightarrow> (case getinfo zs name of Inl e \<Rightarrow> None | Inr z \<Rightarrow> Some z))))"

text \<open>The content of an entry that is retrieved with success.\<close>

definition retrieved :: "world \<Rightarrow> pystr \<Rightarrow> bytes option" where
  "retrieved W url =
     (case selected_member W url of
        None \<Rightarrow> None
      | Some z \<Rightarrow> (case body z of Body content \<Rightarrow> Some content | _ \<Rightarrow> None))"

text \<open>
  A catalogue entry of the manifest that stands for a success: the detail view of its
  subject and title shows a link, the archive behind the link yields a content file, and
  the entry carries the names derived for it.
\<close>

definition success_entry :: "world \<Rightarrow> pystr \<Rightarrow> pystr \<Rightarrow> book_entry \<Rightarrow> bool" where
  "success_entry W class_number class_name be \<longleftrightarrow>
     (case detail_view W class_name (be_subject be) (be_title be) of
        Download_link (Some href) \<Rightarrow>
          retrieved W (download_url href) \<noteq> None \<and>
          be_download_url be = download_url href \<and>
          be_id be = book_id class_number (be_subject be) (be_title be) \<and>
          be_pdf_path be = pdf_path class_number (be_subject be) (be_title be)
      | _ \<Rightarrow> False)"

text \<open>
  The archive reference as the specification asks for it: an absolute reference is used
  as it is, a site-root-relative one is put behind the origin of the site, and any other
  one is taken as a path below the root of the site, where the entry page lies (dot
  segments, queries and fragments are not resolved).
\<close>

definition startswith :: "pystr \<Rightarrow> pystr \<Rightarrow> bool" where
  "startswith s prefix \<longleftrightarrow> take (length prefix) s = prefix"

definition is_absolute_url :: "pystr \<Rightarrow> bool" where
  "is_absolute_url href \<longleftrightarrow>
     startswith href (str ''http://'') \<or> startswith href (str ''https://'')"

definition normalized_reference :: "pystr \<Rightarrow> pystr" where
  "normalized_reference href =
     (if is_absolute_url href then href
      else if startswith href (str ''/'') then str ''https://ncert.nic.in'' @ href
      else str ''https://ncert.nic.in/'' @ href)"

section \<open>Example inputs\<close>

text \<open>An archive in which two directory records carry one name.\<close>

definition dup_archive :: "zip_info list" where
  "dup_archive =
     [\<lparr>filename = str ''a.pdf'', file_size = 1000, body = Body [1]\<rparr>,
      \<lparr>filename = str ''b.pdf'', file_size = 500, body = Body [2]\<rparr>,
      \<lparr>filename = str ''a.pdf'', file_size = 10, body = Body [3]\<rparr>]"

text \<open>An archive with content files of 10, 500 and 200 bytes, and a cover image.\<close>

definition sizes_archive :: "zip_info list" where
  "sizes_archive =
     [\<lparr>filename = str ''ch1.pdf'', file_size = 10, body = Body [1]\<rparr>,
      \<lparr>filename = str ''cover.jpg'', file_size = 900, body = Body [4]\<rparr>,
      \<lparr>filename = str ''Book.PDF'', file_size = 500, body = Body [2]\<rparr>,
      \<lparr>filename = str ''ch2.pdf'', file_size = 200, body = Body [3]\<rparr>]"

text \<open>
  A small catalogue to run the program on. Class I has one subject with four titles; two
  of the titles differ only in a character that the sanitizer replaces. Five archives can
  be fetched: two good ones, one without a content file, one whose stream breaks off and
  one whose content file fails its checksum on reading.
\<close>

definition good_archive :: "zip_info list" where
  "good_archive =
     [\<lparr>filename = str ''book.pdf'', file_size = 500, body = Body [10, 11, 12]\<rparr>,
      \<lparr>filename = str ''cover.jpg'', file_size = 10, body = Body [13]\<rparr>]"

definition other_archive :: "zip_info list" where
  "other_archive = [\<lparr>filename = str ''x.PDF'', file_size = 7, body = Body [20, 21]\<rparr>]"

definition cover_archive :: "zip_info list" where
  "cover_archive = [\<lparr>filename = str ''cover.jpg'', file_size = 10, body = Body [13]\<rparr>]"

definition crc_archive :: "zip_info list" where
  "crc_archive = [\<lparr>filename = str ''book.pdf'', file_size = 500, body = Read_raises BadZipFile\<rparr>]"

definition demo_http :: "pystr \<Rightarrow> http_response" where
  "demo_http url =
     (if url = str ''https://ncert.nic.in/ab1.zip'' then Response 200 [[1], [2]] None
      else if url = str ''https://ncert.nic.in/ab2.zip'' then Response 200 [[3]] None
      else if url = str ''https://ncert.nic.in/nopdf.zip'' then Response 200 [[4]] None
      else if url = str ''https://ncert.nic.in/cut.zip''
        then Response 200 [[1]] (Some ChunkedEncodingError)
      else if url = str ''https://ncert.nic.in/crc.zip'' then Response 200 [[5]] None
      else Response 404 [] None)"

definition demo_zip :: "bytes \<Rightarrow> zip_info list option" where
  "demo_zip b =
     (if b = [1, 2] then Some good_archive
      else if b = [3] then Some other_archive
      else if b = [4] then Some cover_archive
      else if b = [5] then Some crc_archive
      else None)"

definition demo_detail :: "pystr \<Rightarrow> pystr \<Rightarrow> pystr \<Rightarrow> detail" where
  "demo_detail class_name subject title =
     (if title = str ''A b'' then Download_link (Some (str ''ab1.zip''))
      else if title = str ''A_b'' then Download_link (Some (str ''ab2.zip''))
      else if title = str ''Plates'' then Download_link (Some (str ''nopdf.zip''))
      else if title = str ''Cut'' then Download_link (Some (str ''cut.zip''))
      else if title = str ''Crc'' then Download_link (Some (str ''crc.zip''))
      else if title = str ''Gone'' then Navigation_raises TimeoutException
      else No_download_link)"

definition demo_world :: world where
  "demo_world =
     \<lparr>http_get = demo_http,
      zip_read = demo_zip,
      sha256_hexdigest = (\<lambda>b. str ''sha256:'' @ b),
      subject_options = (\<lambda>class_name. Inr [str ''Math'']),
      book_options = (\<lambda>class_name subject. Inr [str ''A b'', str ''Plates'', str ''A_b'']),
      detail_view = demo_detail,
      manifest_write = (\<lambda>path. Written)\<rparr>"

text \<open>The same catalogue, with a first title whose detail view never shows the link.\<close>

definition gone_world :: world where
  "gone_world =
     demo_world\<lparr>book_options := (\<lambda>class_name subject. Inr [str ''Gone'', str ''A b''])\<rparr>"

text \<open>The same catalogue again, on a disk where the hash index cannot be opened for writing.\<close>

definition full_disk_world :: world where
  "full_disk_world =
     demo_world\<lparr>manifest_write :=
       (\<lambda>path. if path = str ''hashes.json'' then Cannot_open OSError else Written)\<rparr>"

text \<open>A disk that holds an output file of an earlier run and a stale temporary file.\<close>

definition old_disk :: state where
  "old_disk =
     \<lparr>files = [str ''downloads/class_1/math_cut.pdf'' \<mapsto> Bytes [7, 7, 7],
               str ''downloads/class_1/math_crc.pdf'' \<mapsto> Bytes [8, 8],
               str ''downloads/class_1/temp.zip'' \<mapsto> Bytes [9]],
      printed = []\<rparr>"

definition empty_disk :: state where
  "empty_disk = \<lparr>files = Map.empty, printed = []\<rparr>"

text \<open>The state of a run on the small catalogue once the title \<^verbatim>\<open>A b\<close> has been recorded.\<close>

definition first_entry :: book_entry where
  "first_entry =
     \<lparr>be_id = str ''c1_math_a_b'', be_class = 1, be_subject = str ''Math'',
      be_title = str ''A b'', be_pdf_path = str ''downloads/class_1/math_a_b.pdf'',
      be_download_url = str ''https://ncert.nic.in/ab1.zip''\<rparr>"

definition first_disk :: state where
  "first_disk =
     \<lparr>files = [str ''downloads/class_1/math_a_b.pdf'' \<mapsto> Bytes [10, 11, 12]], printed = []\<rparr>"

section \<open>Properties of the sanitizer\<close>

lemma sanitize_cp_in_lower_class:
  "in_lower_class (lower_cp (if in_class c then c else ord CHR ''_''))"
  by (auto simp: in_lower_class_def in_class_def lower_cp_def ord_def)

lemma sanitize_cp_fixed:
  "in_lower_class c \<Longrightarrow> lower_cp (if in_class c then c else ord CHR ''_'') = c"
  by (auto simp: in_lower_class_def in_class_def lower_cp_def ord_def)

lemma sanitize_filename_alphabet:
  "list_all in_lower_class (sanitize_filename x)"
  by (induction x)
     (simp_all add: sanitize_filename_def lower_def re_sub_underscore_def
        sanitize_cp_in_lower_class)

lemma sanitize_filename_fixed:
  "list_all in_lower_class x \<Longrightarrow> sanitize_filename x = x"
  by (induction x)
     (simp_all add: sanitize_filename_def lower_def re_sub_underscore_def
        sanitize_cp_fixed)

text \<open>
  Claim C3. For every input string, sanitizing twice gives the same result as
  sanitizing once, and every character of the output lies in \<^verbatim>\<open>[a-z0-9_.-]\<close>.
\<close>

theorem sanitize_filename_idempotent_alphabet:
  "sanitize_filename (sanitize_filename x) = sanitize_filename x \<and>
   (\<forall>c \<in> set (sanitize_filename x). in_lower_class c)"
  using sanitize_filename_fixed [OF sanitize_filename_alphabet [of x]]
    sanitize_filename_alphabet [of x]
  by (simp add: list_all_iff)

theorem sanitize_filename_idempotent_alphabet_witness:
  "sanitize_filename (str ''Std. IX (Part-1)'') = str ''std._ix__part-1_'' \<and>
   sanitize_filename (sanitize_filename (str ''Std. IX (Part-1)'')) =
     sanitize_filename (str ''Std. IX (Part-1)'') \<and>
   list_all in_lower_class (sanitize_filename (str ''Std. IX (Part-1)''))"
  using sanitize_filename_idempotent_alphabet [of "str ''Std. IX (Part-1)''"]
  by (simp add: sanitize_filename_def lower_def re_sub_underscore_def in_class_def
      lower_cp_def str_def ord_def list_all_iff)
section \<open>Choice of the primary content file\<close>

lemma strs: "str (c # cs) = ord c # str cs" "str [] = []"
  by (simp_all add: str_def)

lemma max_loop_split:
  assumes "\<forall>x\<in>set xs. key x = Inr (g x)"
  shows "\<exists>m pre post. max_loop key b (g b) xs = Inr m \<and> b # xs = pre @ m # post \<and>
           (\<forall>x\<in>set pre. g x < g m) \<and> (\<forall>x\<in>set post. g x \<le> g m)"
  using assms
proof (induction xs arbitrary: b)
  case Nil
  show ?case by (rule_tac exI [of _ b], rule_tac exI [of _ "[]"]) simp
next
  case (Cons x xs)
  then have kx: "key x = Inr (g x)" and rest: "\<forall>y\<in>set xs. key y = Inr (g y)" by simp_all
  show ?case
  proof (cases "g b < g x")
    case True
    from Cons.IH [OF rest, of x] obtain m pre post where
      m: "max_loop key x (g x) xs = Inr m" "x # xs = pre @ m # post"
         "\<forall>y\<in>set pre. g y < g m" "\<forall>y\<in>set post. g y \<le> g m" by blast
    have "x \<in> set (pre @ m # post)" using m(2) by (metis list.set_intros(1))
    then have "g x \<le> g m" using m(3,4) by (auto simp: less_imp_le)
    then have "\<forall>y\<in>set (b # pre). g y < g m" using True m(3) by auto
    moreover have "b # x # xs = (b # pre) @ m # post" using m(2) by simp
    moreover have "max_loop key b (g b) (x # xs) = Inr m" using m(1) kx True by simp
    ultimately show ?thesis using m(4) by blast
  next
    case False
    from Cons.IH [OF rest, of b] obtain m pre post where
      m: "max_loop key b (g b) xs = Inr m" "b # xs = pre @ m # post"
         "\<forall>y\<in>set pre. g y < g m" "\<forall>y\<in>set post. g y \<le> g m" by blast
    show ?thesis
    proof (cases pre)
      case Nil
      then have "m = b" "post = xs" using m(2) by simp_all
      moreover have "max_loop key b (g b) (x # xs) = Inr m" using m(1) kx False by simp
      moreover have "b # x # xs = [] @ b # (x # xs)" by simp
      moreover have "\<forall>y\<in>set (x # xs). g y \<le> g b"
        using m(4) False \<open>m = b\<close> \<open>post = xs\<close> by auto
      ultimately show ?thesis by (metis empty_iff list.set(1))
    next
      case (Cons p pre')
      then have "p = b" "xs = pre' @ m # post" using m(2) by simp_all
      moreover have "g b < g m" using m(3) Cons \<open>p = b\<close> by simp
      moreover have "max_loop key b (g b) (x # xs) = Inr m" using m(1) kx False by simp
      ultimately have "b # x # xs = (b # x # pre') @ m # post"
        and "\<forall>y\<in>set (b # x # pre'). g y < g m"
        using m(3) False Cons by auto
      then show ?thesis using m(4) \<open>max_loop key b (g b) (x # xs) = Inr m\<close> by blast
    qed
  qed
qed

lemma find_SomeD: "find P xs = Some x \<Longrightarrow> P x \<and> x \<in> set xs"
  by (induction xs) (auto split: if_splits)

lemma getinfo_namelist:
  assumes "f \<in> set (namelist zs)"
  shows "\<exists>z\<in>set zs. getinfo zs f = Inr z \<and> filename z = f"
proof (cases "find (\<lambda>z. filename z = f) (rev zs)")
  case None
  then show ?thesis using assms by (auto simp: find_None_iff namelist_def)
next
  case (Some z)
  then have "z \<in> set (rev zs) \<and> filename z = f"
    by (auto dest: find_SomeD)
  then show ?thesis using Some by (auto simp: getinfo_def)
qed

lemma getinfo_distinct:
  assumes "distinct (namelist zs)" "z \<in> set zs"
  shows "getinfo zs (filename z) = Inr z"
proof -
  have "filename z \<in> set (namelist zs)" using assms(2) by (simp add: namelist_def)
  from getinfo_namelist [OF this] obtain z' where
    z': "z' \<in> set zs" "getinfo zs (filename z) = Inr z'" "filename z' = filename z" by blast
  have "inj_on filename (set zs)" using assms(1) by (simp add: namelist_def distinct_map)
  then have "z' = z" using z'(1,3) assms(2) by (auto dest: inj_onD)
  then show ?thesis using z'(2) by simp
qed

lemma filter_split:
  "filter P zs = ys1 @ y # ys2 \<Longrightarrow>
   \<exists>zs1 zs2. zs = zs1 @ y # zs2 \<and> filter P zs1 = ys1 \<and> filter P zs2 = ys2 \<and> P y"
proof (induction zs arbitrary: ys1)
  case Nil
  then show ?case by simp
next
  case (Cons z zs)
  show ?case
  proof (cases "P z")
    case False
    then have "filter P zs = ys1 @ y # ys2" using Cons.prems by simp
    from Cons.IH [OF this] obtain zs1 zs2 where
      "zs = zs1 @ y # zs2" "filter P zs1 = ys1" "filter P zs2 = ys2" "P y" by blast
    then show ?thesis using False
      by (intro exI [of _ "z # zs1"] exI [of _ zs2]) simp
  next
    case True
    then have eq: "z # filter P zs = ys1 @ y # ys2" using Cons.prems by simp
    show ?thesis
    proof (cases ys1)
      case Nil
      then have "z = y" "filter P zs = ys2" using eq by simp_all
      then show ?thesis using True Nil
        by (intro exI [of _ "[]"] exI [of _ zs]) simp
    next
      case (Cons a ys1')
      then have "a = z" "filter P zs = ys1' @ y # ys2" using eq by simp_all
      from Cons.IH [OF this(2)] obtain zs1 zs2 where
        "zs = zs1 @ y # zs2" "filter P zs1 = ys1'" "filter P zs2 = ys2" "P y" by blast
      then show ?thesis using True Cons \<open>a = z\<close>
        by (intro exI [of _ "z # zs1"] exI [of _ zs2]) simp
    qed
  qed
qed

text \<open>
  Whatever the names are, the name chosen is the first one, in the order of the listing,
  among the names ending in \<^verbatim>\<open>.pdf\<close> whose size, as \<^verbatim>\<open>getinfo\<close> reports it, is largest.
\<close>

lemma main_pdf_name_first_largest_name:
  assumes "pdf_files zs \<noteq> []"
  shows "\<exists>pre m post km. main_pdf_name zs = Inr m \<and> pdf_files zs = pre @ m # post \<and>
           size_key zs m = Inr km \<and>
           (\<forall>f\<in>set pre. \<exists>k. size_key zs f = Inr k \<and> k < km) \<and>
           (\<forall>f\<in>set post. \<exists>k. size_key zs f = Inr k \<and> k \<le> km)"
proof -
  obtain f0 rest where fs: "pdf_files zs = f0 # rest" using assms by (cases "pdf_files zs") auto
  define g where "g = (\<lambda>f. case size_key zs f of Inr k \<Rightarrow> k | Inl e \<Rightarrow> (0::nat))"
  have key: "size_key zs f = Inr (g f)" if "f \<in> set (pdf_files zs)" for f
  proof -
    have "f \<in> set (namelist zs)" using that by (simp add: pdf_files_def)
    from getinfo_namelist [OF this] show ?thesis by (auto simp: size_key_def g_def)
  qed
  then have "\<forall>f\<in>set rest. size_key zs f = Inr (g f)" using fs by simp
  from max_loop_split [OF this, of f0] obtain m pre post where
    m: "max_loop (size_key zs) f0 (g f0) rest = Inr m" "f0 # rest = pre @ m # post"
       "\<forall>f\<in>set pre. g f < g m" "\<forall>f\<in>set post. g f \<le> g m" by blast
  have sel: "main_pdf_name zs = Inr m"
    using m(1) key [of f0] fs by (simp add: main_pdf_name_def py_max_def)
  have dec: "pdf_files zs = pre @ m # post" using m(2) fs by simp
  then have km: "size_key zs m = Inr (g m)" using key [of m] by simp
  have "\<forall>f\<in>set pre. \<exists>k. size_key zs f = Inr k \<and> k < g m"
    using m(3) key dec by auto
  moreover have "\<forall>f\<in>set post. \<exists>k. size_key zs f = Inr k \<and> k \<le> g m"
    using m(4) key dec by auto
  ultimately show ?thesis using sel dec km by blast
qed

lemma pdf_files_filter:
  "pdf_files zs = map filename (filter (\<lambda>z. is_pdf_name (filename z)) zs)"
  by (simp add: pdf_files_def namelist_def filter_map comp_def)

lemma size_key_distinct:
  "distinct (namelist zs) \<Longrightarrow> z \<in> set zs \<Longrightarrow> size_key zs (filename z) = Inr (file_size z)"
  by (simp add: size_key_def getinfo_distinct)

lemma main_pdf_name_distinct:
  assumes d: "distinct (namelist zs)" and ex: "\<exists>z\<in>set zs. is_pdf_name (filename z)"
  shows "\<exists>zs1 y zs2. zs = zs1 @ y # zs2 \<and> main_pdf_name zs = Inr (filename y) \<and>
           is_pdf_name (filename y) \<and>
           (\<forall>z\<in>set zs1. is_pdf_name (filename z) \<longrightarrow> file_size z < file_size y) \<and>
           (\<forall>z\<in>set zs2. is_pdf_name (filename z) \<longrightarrow> file_size z \<le> file_size y)"
proof -
  define P :: "zip_info \<Rightarrow> bool" where "P = (\<lambda>z. is_pdf_name (filename z))"
  define ps where "ps = filter P zs"
  have pf: "pdf_files zs = map filename ps" by (simp add: pdf_files_filter ps_def P_def)
  have sub: "set ps \<subseteq> set zs" by (auto simp: ps_def)
  have "ps \<noteq> []" using ex by (auto simp: ps_def P_def filter_empty_conv)
  then obtain p0 rest where ps: "ps = p0 # rest" by (cases ps) auto
  define g where "g = (\<lambda>f. case size_key zs f of Inr k \<Rightarrow> k | Inl e \<Rightarrow> (0::nat))"
  have key: "size_key zs (filename z) = Inr (g (filename z))" and gz: "g (filename z) = file_size z"
    if "z \<in> set zs" for z
    using size_key_distinct [OF d that] by (simp_all add: g_def)
  have keys: "\<forall>f\<in>set (map filename rest). size_key zs f = Inr (g f)"
    using key sub ps by auto
  have k0: "size_key zs (filename p0) = Inr (g (filename p0))" using key sub ps by auto
  from max_loop_split [OF keys, of "filename p0"] obtain m pre post where
    m: "max_loop (size_key zs) (filename p0) (g (filename p0)) (map filename rest) = Inr m"
       "filename p0 # map filename rest = pre @ m # post"
       "\<forall>f\<in>set pre. g f < g m" "\<forall>f\<in>set post. g f \<le> g m" by blast
  have sel: "main_pdf_name zs = Inr m"
    using m(1) k0 by (simp add: main_pdf_name_def py_max_def pf ps)
  have "map filename ps = pre @ m # post" using m(2) ps by simp
  then obtain ps1 y ps2 where
    y: "ps = ps1 @ y # ps2" "map filename ps1 = pre" "filename y = m" "map filename ps2 = post"
    by (auto simp: map_eq_append_conv map_eq_Cons_conv)
  from filter_split [of P zs ps1 y ps2] y(1) obtain zs1 zs2 where
    z: "zs = zs1 @ y # zs2" "filter P zs1 = ps1" "filter P zs2 = ps2" "P y"
    by (auto simp: ps_def)
  have yin: "y \<in> set zs" using z(1) by simp
  have "file_size z' < file_size y" if "z' \<in> set zs1" "P z'" for z'
  proof -
    have "z' \<in> set ps1" using that z(2) by auto
    then have "filename z' \<in> set pre" using y(2) by auto
    then have "g (filename z') < g m" using m(3) by simp
    moreover have "z' \<in> set zs" using that(1) z(1) by simp
    ultimately show ?thesis using gz yin y(3) by auto
  qed
  moreover have "file_size z' \<le> file_size y" if "z' \<in> set zs2" "P z'" for z'
  proof -
    have "z' \<in> set ps2" using that z(3) by auto
    then have "filename z' \<in> set post" using y(4) by auto
    then have "g (filename z') \<le> g m" using m(4) by simp
    moreover have "z' \<in> set zs" using that(1) z(1) by simp
    ultimately show ?thesis using gz yin y(3) by auto
  qed
  ultimately show ?thesis using z(1,4) sel y(3) unfolding P_def by blast
qed

lemma main_pdf_name_strictly_largest:
  assumes d: "distinct (namelist zs)" and z: "z \<in> set zs" "is_pdf_name (filename z)"
    and top: "\<forall>z'\<in>set zs. is_pdf_name (filename z') \<and> z' \<noteq> z \<longrightarrow> file_size z' < file_size z"
  shows "main_pdf_name zs = Inr (filename z)"
proof -
  from main_pdf_name_distinct [OF d] z obtain zs1 y zs2 where
    s: "zs = zs1 @ y # zs2" "main_pdf_name zs = Inr (filename y)" "is_pdf_name (filename y)"
       "\<forall>z\<in>set zs1. is_pdf_name (filename z) \<longrightarrow> file_size z < file_size y"
       "\<forall>z\<in>set zs2. is_pdf_name (filename z) \<longrightarrow> file_size z \<le> file_size y"
    by blast
  have "y = z"
  proof (rule ccontr)
    assume ne: "y \<noteq> z"
    then have "file_size y < file_size z" using top s(1,3) by simp
    moreover have "file_size z \<le> file_size y" using z s(1,4,5) ne by (auto simp: less_imp_le)
    ultimately show False by simp
  qed
  then show ?thesis using s(2) by simp
qed

text \<open>
  Claim C2, as amended. In an archive whose entries have pairwise distinct names and
  that holds at least one entry with a name ending in \<^verbatim>\<open>.pdf\<close> (in any letter case), the
  file chosen and opened is the matching entry of largest declared size, the first such
  entry in archive order when several share that size. So an entry that is strictly
  larger than every other matching entry is chosen wherever it stands in the listing.
\<close>

theorem main_pdf_name_largest_first:
  assumes "distinct (namelist zs)" and "\<exists>z\<in>set zs. is_pdf_name (filename z)"
  shows "(\<exists>i. is_primary zs i \<and> main_pdf_name zs = Inr (filename (zs ! i)) \<and>
              zip_open zs (filename (zs ! i)) =
                (case body (zs ! i) of Open_raises e \<Rightarrow> Inl e | src \<Rightarrow> Inr src)) \<and>
         (\<forall>z\<in>set zs. is_pdf_name (filename z) \<and>
              (\<forall>z'\<in>set zs. is_pdf_name (filename z') \<and> z' \<noteq> z \<longrightarrow>
                  file_size z' < file_size z) \<longrightarrow>
              main_pdf_name zs = Inr (filename z))"
proof (rule conjI)
  from main_pdf_name_distinct [OF assms] obtain zs1 y zs2 where
    s: "zs = zs1 @ y # zs2" "main_pdf_name zs = Inr (filename y)" "is_pdf_name (filename y)"
       "\<forall>z\<in>set zs1. is_pdf_name (filename z) \<longrightarrow> file_size z < file_size y"
       "\<forall>z\<in>set zs2. is_pdf_name (filename z) \<longrightarrow> file_size z \<le> file_size y"
    by blast
  have nth: "zs ! length zs1 = y" and tk: "take (length zs1) zs = zs1" using s(1) by simp_all
  have "is_primary zs (length zs1)"
    unfolding is_primary_def nth tk using s by (auto simp: list_all_iff less_imp_le)
  moreover have "getinfo zs (filename y) = Inr y"
    using getinfo_distinct [OF assms(1), of y] s(1) by simp
  ultimately show "\<exists>i. is_primary zs i \<and> main_pdf_name zs = Inr (filename (zs ! i)) \<and>
      zip_open zs (filename (zs ! i)) =
        (case body (zs ! i) of Open_raises e \<Rightarrow> Inl e | src \<Rightarrow> Inr src)"
    using s(2) nth by (auto simp: zip_open_def)
next
  show "\<forall>z\<in>set zs. is_pdf_name (filename z) \<and>
      (\<forall>z'\<in>set zs. is_pdf_name (filename z') \<and> z' \<noteq> z \<longrightarrow> file_size z' < file_size z) \<longrightarrow>
      main_pdf_name zs = Inr (filename z)"
    using main_pdf_name_strictly_largest [OF assms(1)] by blast
qed

theorem main_pdf_name_largest_first_witness:
  "distinct (namelist sizes_archive) \<and>
   (\<exists>z\<in>set sizes_archive. is_pdf_name (filename z)) \<and>
   is_primary sizes_archive 2 \<and>
   file_size (sizes_archive ! 2) = 500 \<and>
   main_pdf_name sizes_archive = Inr (str ''Book.PDF'') \<and>
   (\<exists>i. is_primary sizes_archive i \<and>
        main_pdf_name sizes_archive = Inr (filename (sizes_archive ! i)))"
proof -
  have d: "distinct (namelist sizes_archive)"
    by (simp add: sizes_archive_def namelist_def strs ord_def)
  have p: "is_pdf_name (filename (sizes_archive ! 2))"
    by (simp add: sizes_archive_def is_pdf_name_def endswith_def lower_def lower_cp_def
        strs ord_def)
  have e: "\<exists>z\<in>set sizes_archive. is_pdf_name (filename z)"
    using p by (auto simp: sizes_archive_def)
  have q: "is_primary sizes_archive 2"
    by (simp add: sizes_archive_def is_primary_def is_pdf_name_def endswith_def lower_def
        lower_cp_def strs ord_def)
  have m: "main_pdf_name sizes_archive = Inr (str ''Book.PDF'')"
    by (simp add: sizes_archive_def main_pdf_name_def py_max_def pdf_files_def namelist_def
        is_pdf_name_def endswith_def lower_def lower_cp_def size_key_def getinfo_def
        strs ord_def)
  have s: "file_size (sizes_archive ! 2) = 500" by (simp add: sizes_archive_def)
  from main_pdf_name_largest_first [OF d e]
  have "\<exists>i. is_primary sizes_archive i \<and>
        main_pdf_name sizes_archive = Inr (filename (sizes_archive ! i))" by blast
  then show ?thesis using d e q m s by blast
qed

text \<open>
  Claim C2, as stated, fails on an archive with a repeated name: \<^verbatim>\<open>getinfo\<close> answers
  for the last record of a name, so the 1000-byte entry is ranked by the 10 bytes of its
  namesake and the 500-byte entry is chosen.
\<close>

theorem main_pdf_name_duplicate_names:
  "main_pdf_name dup_archive = Inr (str ''b.pdf'') \<and> is_primary dup_archive 0 \<and>
   filename (dup_archive ! 0) = str ''a.pdf'' \<and> file_size (dup_archive ! 0) = 1000 \<and>
   str ''a.pdf'' \<noteq> str ''b.pdf''"
  by (simp add: dup_archive_def main_pdf_name_def py_max_def pdf_files_def namelist_def
      is_pdf_name_def endswith_def lower_def lower_cp_def size_key_def getinfo_def
      is_primary_def strs ord_def)

section \<open>The paths of one entry\<close>

lemma output_dir_eq: "output_dir c = str ''downloads/class_'' @ c"
  by (simp add: output_dir_def os_path_join_def strs ord_def)

lemma sanitize_filename_no_slash:
  "x \<in> set (sanitize_filename s) \<Longrightarrow> x \<noteq> ord CHR ''/''"
  using sanitize_filename_alphabet [of s]
  by (auto simp: list_all_iff in_lower_class_def ord_def)

lemma pdf_filename_relative:
  "pdf_filename s t \<noteq> [] \<and> hd (pdf_filename s t) \<noteq> ord CHR ''/''"
proof (cases "sanitize_filename s")
  case Nil
  then show ?thesis by (simp add: pdf_filename_def strs ord_def)
next
  case (Cons x xs)
  then have "x \<noteq> ord CHR ''/''" using sanitize_filename_no_slash [of x s] by simp
  then show ?thesis using Cons by (simp add: pdf_filename_def)
qed

lemma paths_shape:
  "\<exists>d. d \<noteq> [] \<and> hd d = ord CHR ''d'' \<and> zip_path c = d @ str ''temp.zip'' \<and>
       (\<forall>s t. pdf_path c s t = d @ pdf_filename s t)"
proof -
  define d where
    "d = output_dir c @ (if last (output_dir c) = ord CHR ''/'' then [] else str ''/'')"
  have ne: "output_dir c \<noteq> []" and h: "hd (output_dir c) = ord CHR ''d''"
    by (simp_all add: output_dir_eq strs)
  have "zip_path c = d @ str ''temp.zip''"
    using ne by (simp add: zip_path_def os_path_join_def d_def strs ord_def)
  moreover have "pdf_path c s t = d @ pdf_filename s t" for s t
    using ne pdf_filename_relative [of s t] by (simp add: pdf_path_def os_path_join_def d_def)
  moreover have "d \<noteq> []" "hd d = ord CHR ''d''" using ne h by (simp_all add: d_def)
  ultimately show ?thesis by blast
qed

lemma pdf_filename_not_temp: "pdf_filename s t \<noteq> str ''temp.zip''"
proof
  assume "pdf_filename s t = str ''temp.zip''"
  then have "last (pdf_filename s t) = last (str ''temp.zip'')" by simp
  then show False by (simp add: pdf_filename_def strs ord_def)
qed

lemma zip_path_not_pdf_path: "zip_path c \<noteq> pdf_path c s t"
  using paths_shape [of c] pdf_filename_not_temp [of s t] by auto

lemma manifest_not_pdf_path:
  "pdf_path c s t \<noteq> str ''books_to_track.json''" "pdf_path c s t \<noteq> str ''hashes.json''"
  using paths_shape [of c] by (auto simp: strs ord_def dest: arg_cong [where f = hd])

lemma manifest_not_zip_path:
  "zip_path c \<noteq> str ''books_to_track.json''" "zip_path c \<noteq> str ''hashes.json''"
  using paths_shape [of c] by (auto simp: strs ord_def dest: arg_cong [where f = hd])

section \<open>download_and_extract, case by case\<close>

lemma main_pdf_name_total:
  assumes "pdf_files zs \<noteq> []"
  shows "\<exists>name z. main_pdf_name zs = Inr name \<and> name \<in> set (pdf_files zs) \<and>
           getinfo zs name = Inr z \<and> z \<in> set zs \<and> filename z = name"
proof -
  obtain f0 rest where fs: "pdf_files zs = f0 # rest" using assms by (cases "pdf_files zs") auto
  define g where "g = (\<lambda>f. case size_key zs f of Inr k \<Rightarrow> k | Inl e \<Rightarrow> (0::nat))"
  have key: "size_key zs f = Inr (g f)" if "f \<in> set (pdf_files zs)" for f
  proof -
    have "f \<in> set (namelist zs)" using that by (simp add: pdf_files_def)
    from getinfo_namelist [OF this] show ?thesis by (auto simp: size_key_def g_def)
  qed
  then have "\<forall>f\<in>set rest. size_key zs f = Inr (g f)" using fs by simp
  from max_loop_split [OF this, of f0] obtain m pre post where
    m: "max_loop (size_key zs) f0 (g f0) rest = Inr m" "f0 # rest = pre @ m # post" by blast
  have "main_pdf_name zs = Inr m"
    using m(1) key [of f0] fs by (simp add: main_pdf_name_def py_max_def)
  moreover have min: "m \<in> set (pdf_files zs)" using m(2) fs by (metis in_set_conv_decomp)
  moreover have "m \<in> set (namelist zs)" using min by (simp add: pdf_files_def)
  ultimately show ?thesis using getinfo_namelist [of m zs] by blast
qed

lemma say_simps [simp]:
  "files (say e st) = files st" "printed (say e st) = printed st @ [e]"
  by (simp_all add: say_def)

lemma open_w_simps [simp]:
  "files (open_w p st) = (files st)(p \<mapsto> Bytes [])" "printed (open_w p st) = printed st"
  by (simp_all add: open_w_def)

lemma f_write_printed [simp]: "printed (f_write p chunk st) = printed st"
  by (simp add: f_write_def split: option.splits file_data.splits)

lemma f_write_files:
  "files st p = Some (Bytes b) \<Longrightarrow> files (f_write p chunk st) = (files st)(p \<mapsto> Bytes (b @ chunk))"
  by (simp add: f_write_def)

lemma write_chunks_printed [simp]: "printed (write_chunks p chunks st) = printed st"
  by (induction chunks arbitrary: st) simp_all

lemma write_chunks_files:
  "files st p = Some (Bytes b) \<Longrightarrow>
   files (write_chunks p chunks st) = (files st)(p \<mapsto> Bytes (b @ concat chunks))"
  by (induction chunks arbitrary: st b) (auto simp: f_write_files)

lemma finally_remove_simps [simp]:
  "files (finally_remove zp st) = (files st)(zp := None)"
  "printed (finally_remove zp st) = printed st"
  by (auto simp: finally_remove_def os_path_exists_def os_remove_def)

lemma fetch_cases:
  assumes "fetch W url zp st = (st', x)"
  obtains
    (get_raises) e where "http_get W url = Get_raises e" "x = Some (RequestException e)"
      "st' = st"
  | (bad_status) status chunks err where "http_get W url = Response status chunks err"
      "400 \<le> status \<and> status < 600" "x = Some (RequestException HTTPError)" "st' = st"
  | (streamed) status chunks err where "http_get W url = Response status chunks err"
      "\<not> (400 \<le> status \<and> status < 600)" "x = map_option RequestException err"
      "files st' = (files st)(zp \<mapsto> Bytes (concat chunks))" "printed st' = printed st"
proof (cases "http_get W url")
  case (Get_raises e)
  then show ?thesis using assms get_raises by (simp add: fetch_def)
next
  case (Response status chunks err)
  show ?thesis
  proof (cases "400 \<le> status \<and> status < 600")
    case True
    then show ?thesis using assms Response bad_status by (simp add: fetch_def)
  next
    case False
    have "files (write_chunks zp chunks (open_w zp st)) = (files st)(zp \<mapsto> Bytes (concat chunks))"
      using write_chunks_files [of "open_w zp st" zp "[]" chunks] by simp
    then show ?thesis using assms Response False streamed [of status chunks err]
      by (auto simp: fetch_def)
  qed
qed


lemma try_body_cases:
  assumes tb: "try_body W url bid pp zp st = (st', r)" and ne: "pp \<noteq> zp"
  obtains
    (fetch_failed) e where "fetch_outcome (http_get W url) = Inl e"
      "r = Inl (RequestException e)" "\<forall>p. p \<noteq> zp \<longrightarrow> files st' p = files st p"
      "printed st' = printed st @ [Downloading url]"
  | (bad_zip) b where "fetch_outcome (http_get W url) = Inr b" "zip_read W b = None"
      "r = Inl BadZipFile" "files st' = (files st)(zp \<mapsto> Bytes b)"
      "printed st' = printed st @ [Downloading url, Extracting zp]"
  | (no_pdf) b zs where "fetch_outcome (http_get W url) = Inr b" "zip_read W b = Some zs"
      "pdf_files zs = []" "r = Inr None" "files st' = (files st)(zp \<mapsto> Bytes b)"
      "printed st' = printed st @ [Downloading url, Extracting zp, No_pdf_found zp]"
  | (open_raises) b zs name z e where "fetch_outcome (http_get W url) = Inr b"
      "zip_read W b = Some zs" "pdf_files zs \<noteq> []" "main_pdf_name zs = Inr name"
      "getinfo zs name = Inr z" "body z = Open_raises e"
      "r = Inl e" "files st' = (files st)(zp \<mapsto> Bytes b)"
      "printed st' = printed st @ [Downloading url, Extracting zp]"
  | (read_raises) b zs name z e where "fetch_outcome (http_get W url) = Inr b"
      "zip_read W b = Some zs" "pdf_files zs \<noteq> []" "main_pdf_name zs = Inr name"
      "getinfo zs name = Inr z" "body z = Read_raises e"
      "r = Inl e" "files st' = (files st)(zp \<mapsto> Bytes b, pp \<mapsto> Bytes [])"
      "printed st' = printed st @ [Downloading url, Extracting zp]"
  | (saved) b zs name z content where "fetch_outcome (http_get W url) = Inr b"
      "zip_read W b = Some zs" "pdf_files zs \<noteq> []" "main_pdf_name zs = Inr name"
      "getinfo zs name = Inr z" "body z = Body content"
      "r = Inr (Some \<lparr>md_id = bid, md_pdf_path = pp,
                       md_sha256 = sha256_hexdigest W content\<rparr>)"
      "files st' = (files st)(zp \<mapsto> Bytes b, pp \<mapsto> Bytes content)"
      "printed st' = printed st @ [Downloading url, Extracting zp, Saved_pdf pp]"
proof -
  obtain st1 x where f: "fetch W url zp (say (Downloading url) st) = (st1, x)"
    by (cases "fetch W url zp (say (Downloading url) st)")
  show ?thesis
  proof (cases x)
    case (Some e)
    then have r: "st' = st1" "r = Inl e" using tb f by (simp_all add: try_body_def)
    from f show ?thesis
    proof (cases rule: fetch_cases)
      case (get_raises e')
      then show ?thesis using r Some fetch_failed [of e'] by simp
    next
      case (bad_status status chunks err)
      then show ?thesis using r Some fetch_failed [of HTTPError] by simp
    next
      case (streamed status chunks err)
      then obtain e' where "err = Some e'" "e = RequestException e'"
        using Some by (cases err) auto
      moreover have "fetch_outcome (http_get W url) = Inl e'"
        using streamed(1,2) \<open>err = Some e'\<close> by auto
      ultimately show ?thesis using r streamed(4,5) fetch_failed [of e'] by simp
    qed
  next
    case None
    from f obtain status chunks where
      h: "http_get W url = Response status chunks None" "\<not> (400 \<le> status \<and> status < 600)"
      and f1: "files st1 = (files st)(zp \<mapsto> Bytes (concat chunks))"
      and p1: "printed st1 = printed st @ [Downloading url]"
      using None by (cases rule: fetch_cases) auto
    define b where "b = concat chunks"
    have fo: "fetch_outcome (http_get W url) = Inr b" using h by (auto simp: b_def)
    define st2 where "st2 = say (Extracting zp) st1"
    have f2: "files st2 = (files st)(zp \<mapsto> Bytes b)"
      and p2: "printed st2 = printed st @ [Downloading url, Extracting zp]"
      using f1 p1 by (simp_all add: st2_def b_def)
    have tb2: "(st', r) =
         (case ZipFile W zp st2 of
            Inl e \<Rightarrow> (st2, Inl e)
          | Inr zs \<Rightarrow>
              if pdf_files zs = [] then (say (No_pdf_found zp) st2, Inr None)
              else
                (case main_pdf_name zs of
                   Inl e \<Rightarrow> (st2, Inl e)
                 | Inr name \<Rightarrow>
                     (case zip_open zs name of
                        Inl e \<Rightarrow> (st2, Inl e)
                      | Inr source \<Rightarrow>
                          (let st3 = open_w pp st2 in
                           case source_read source of
                             Inl e \<Rightarrow> (st3, Inl e)
                           | Inr pdf_content \<Rightarrow>
                               (let st4 = f_write pp pdf_content st3;
                                    sha256_hash = sha256_hexdigest W pdf_content
                                in (say (Saved_pdf pp) st4,
                                    Inr (Some \<lparr>md_id = bid, md_pdf_path = pp,
                                               md_sha256 = sha256_hash\<rparr>)))))))"
      unfolding st2_def using tb f None by (simp add: try_body_def Let_def)
    show ?thesis
    proof (cases "zip_read W b")
      case None
      then have "ZipFile W zp st2 = Inl BadZipFile" using f2 by (simp add: ZipFile_def)
      then show ?thesis using tb2 bad_zip [of b] fo None f2 p2 by simp
    next
      case (Some zs)
      then have zf: "ZipFile W zp st2 = Inr zs" using f2 by (simp add: ZipFile_def)
      show ?thesis
      proof (cases "pdf_files zs = []")
        case True
        then show ?thesis using tb2 zf no_pdf [of b zs] fo Some f2 p2 by simp
      next
        case False
        from main_pdf_name_total [OF False] obtain name z where
          sel: "main_pdf_name zs = Inr name" "getinfo zs name = Inr z" by blast
        show ?thesis
        proof (cases "body z")
          case (Open_raises e)
          then have "zip_open zs name = Inl e" using sel by (simp add: zip_open_def)
          then show ?thesis
            using tb2 zf False sel open_raises [of b zs name z e] fo Some f2 p2 Open_raises
            by simp
        next
          case (Read_raises e)
          then have "zip_open zs name = Inr (Read_raises e)" using sel by (simp add: zip_open_def)
          then show ?thesis
            using tb2 zf False sel read_raises [of b zs name z e] fo Some f2 p2 Read_raises
            by (simp add: Let_def)
        next
          case (Body content)
          then have "zip_open zs name = Inr (Body content)" using sel by (simp add: zip_open_def)
          moreover have "files (f_write pp content (open_w pp st2)) =
              (files st)(zp \<mapsto> Bytes b, pp \<mapsto> Bytes content)"
            using f_write_files [of "open_w pp st2" pp "[]" content] f2 by simp
          ultimately show ?thesis
            using tb2 zf False sel saved [of b zs name z content] fo Some p2 Body
            by (simp add: Let_def)
        qed
      qed
    qed
  qed
qed


lemma except_clauses_result:
  "except_clauses url (st, Inl e) =
     (if is_RequestException e then (say (Failed_download url e) st, Inr None)
      else if e = BadZipFile then (say Failed_open_zip st, Inr None)
      else (st, Inl e))"
  "except_clauses url (st, Inr v) = (st, Inr v)"
  by (simp_all add: except_clauses_def)

lemma download_and_extract_cases:
  assumes dae: "download_and_extract W st url c s t = (st', r)"
  obtains
    (fetch_failed) e where "fetch_outcome (http_get W url) = Inl e" "r = Inr None"
      "files st' = (files st)(zip_path c := None)"
      "printed st' = printed st @ [Downloading url, Failed_download url (RequestException e)]"
  | (bad_zip) b where "fetch_outcome (http_get W url) = Inr b" "zip_read W b = None"
      "r = Inr None" "files st' = (files st)(zip_path c := None)"
      "printed st' = printed st @ [Downloading url, Extracting (zip_path c), Failed_open_zip]"
  | (no_pdf) b zs where "fetch_outcome (http_get W url) = Inr b" "zip_read W b = Some zs"
      "pdf_files zs = []" "r = Inr None" "files st' = (files st)(zip_path c := None)"
      "printed st' =
         printed st @ [Downloading url, Extracting (zip_path c), No_pdf_found (zip_path c)]"
  | (open_raises) b zs name z e evs where "fetch_outcome (http_get W url) = Inr b"
      "zip_read W b = Some zs" "pdf_files zs \<noteq> []" "main_pdf_name zs = Inr name"
      "getinfo zs name = Inr z" "body z = Open_raises e"
      "r = (if is_RequestException e \<or> e = BadZipFile then Inr None else Inl e)"
      "files st' = (files st)(zip_path c := None)"
      "printed st' = printed st @ [Downloading url, Extracting (zip_path c)] @ evs"
      "set evs \<subseteq> {Failed_download url e, Failed_open_zip}"
  | (read_raises) b zs name z e evs where "fetch_outcome (http_get W url) = Inr b"
      "zip_read W b = Some zs" "pdf_files zs \<noteq> []" "main_pdf_name zs = Inr name"
      "getinfo zs name = Inr z" "body z = Read_raises e"
      "r = (if is_RequestException e \<or> e = BadZipFile then Inr None else Inl e)"
      "files st' = (files st)(zip_path c := None, pdf_path c s t \<mapsto> Bytes [])"
      "printed st' = printed st @ [Downloading url, Extracting (zip_path c)] @ evs"
      "set evs \<subseteq> {Failed_download url e, Failed_open_zip}"
  | (saved) b zs name z content where "fetch_outcome (http_get W url) = Inr b"
      "zip_read W b = Some zs" "pdf_files zs \<noteq> []" "main_pdf_name zs = Inr name"
      "getinfo zs name = Inr z" "body z = Body content"
      "r = Inr (Some \<lparr>md_id = book_id c s t, md_pdf_path = pdf_path c s t,
                       md_sha256 = sha256_hexdigest W content\<rparr>)"
      "files st' = (files st)(zip_path c := None, pdf_path c s t \<mapsto> Bytes content)"
      "printed st' =
         printed st @ [Downloading url, Extracting (zip_path c), Saved_pdf (pdf_path c s t)]"
proof -
  define zp where "zp = zip_path c"
  define pp where "pp = pdf_path c s t"
  have ne: "pp \<noteq> zp" using zip_path_not_pdf_path [of c s t] by (simp add: zp_def pp_def)
  obtain st1 r1 where tb: "try_body W url (book_id c s t) pp zp st = (st1, r1)"
    by (cases "try_body W url (book_id c s t) pp zp st")
  obtain st2 where ex: "except_clauses url (st1, r1) = (st2, r)"
    and fin: "st' = finally_remove zp st2"
    using dae tb by (auto simp: download_and_extract_def zp_def pp_def split: prod.splits)
  have handler: "\<exists>evs. r = (if is_RequestException e \<or> e = BadZipFile then Inr None else Inl e) \<and>
      files st2 = files st1 \<and> printed st2 = printed st1 @ evs \<and>
      set evs \<subseteq> {Failed_download url e, Failed_open_zip}" if "r1 = Inl e" for e
  proof (cases "is_RequestException e")
    case True
    then have "r = Inr None \<and> files st2 = files st1 \<and>
        printed st2 = printed st1 @ [Failed_download url e]"
      using ex that by (auto simp: except_clauses_result)
    then show ?thesis using True by auto
  next
    case False
    show ?thesis
    proof (cases "e = BadZipFile")
      case True
      then have "r = Inr None \<and> files st2 = files st1 \<and>
          printed st2 = printed st1 @ [Failed_open_zip]"
        using ex that False by (auto simp: except_clauses_result)
      then show ?thesis using True by auto
    next
      case nb: False
      then have "r = Inl e \<and> files st2 = files st1 \<and> printed st2 = printed st1 @ []"
        using ex that False by (auto simp: except_clauses_result)
      then show ?thesis using nb False by (metis empty_set empty_subsetI)
    qed
  qed
  from tb ne show ?thesis
  proof (cases rule: try_body_cases)
    case (fetch_failed e)
    then have "st2 = say (Failed_download url (RequestException e)) st1" "r = Inr None"
      using ex by (simp_all add: except_clauses_result)
    moreover have "(files st1)(zp := None) = (files st)(zp := None)"
      using fetch_failed(3) by (auto simp: fun_eq_iff)
    ultimately show ?thesis using fin fetch_failed that(1) [of e] by (simp add: zp_def)
  next
    case (bad_zip b)
    then have "st2 = say Failed_open_zip st1" "r = Inr None"
      using ex by (simp_all add: except_clauses_result)
    then show ?thesis using fin bad_zip that(2) [of b] by (simp add: zp_def)
  next
    case (no_pdf b zs)
    then have "st2 = st1" "r = Inr None"
      using ex by (simp_all add: except_clauses_result)
    then show ?thesis using fin no_pdf that(3) [of b zs] by (simp add: zp_def)
  next
    case (open_raises b zs name z e)
    from handler [OF open_raises(7)] obtain evs where
      h: "r = (if is_RequestException e \<or> e = BadZipFile then Inr None else Inl e)"
         "files st2 = files st1" "printed st2 = printed st1 @ evs"
         "set evs \<subseteq> {Failed_download url e, Failed_open_zip}" by blast
    have "files st' = (files st)(zip_path c := None)"
      using fin h(2) open_raises(8) by (simp add: zp_def)
    moreover have "printed st' = printed st @ [Downloading url, Extracting (zip_path c)] @ evs"
      using fin h(3) open_raises(9) by (simp add: zp_def)
    ultimately show ?thesis using that(4) [of b zs name z e evs] open_raises(1-6) h(1,4) by blast
  next
    case (read_raises b zs name z e)
    from handler [OF read_raises(7)] obtain evs where
      h: "r = (if is_RequestException e \<or> e = BadZipFile then Inr None else Inl e)"
         "files st2 = files st1" "printed st2 = printed st1 @ evs"
         "set evs \<subseteq> {Failed_download url e, Failed_open_zip}" by blast
    have "files st' = (files st)(zip_path c := None, pdf_path c s t \<mapsto> Bytes [])"
      using fin h(2) read_raises(8) ne by (auto simp: zp_def pp_def fun_eq_iff)
    moreover have "printed st' = printed st @ [Downloading url, Extracting (zip_path c)] @ evs"
      using fin h(3) read_raises(9) by (simp add: zp_def)
    ultimately show ?thesis using that(5) [of b zs name z e evs] read_raises(1-6) h(1,4) by blast
  next
    case (saved b zs name z content)
    then have st2: "st2 = st1" and r: "r = r1"
      using ex by (simp_all add: except_clauses_result)
    have "files st' = (files st)(zip_path c := None, pdf_path c s t \<mapsto> Bytes content)"
      using fin st2 saved(8) ne by (auto simp: zp_def pp_def fun_eq_iff)
    moreover have "printed st' =
        printed st @ [Downloading url, Extracting (zip_path c), Saved_pdf (pdf_path c s t)]"
      using fin st2 saved(9) by (simp add: zp_def pp_def)
    ultimately show ?thesis using that(6) [of b zs name z content] saved(1-6) saved(7) r
      by (simp add: pp_def)
  qed
qed


lemmas demo_defs = demo_world_def demo_http_def demo_zip_def demo_detail_def
  good_archive_def other_archive_def cover_archive_def crc_archive_def

lemmas eval_defs = main_pdf_name_def py_max_def pdf_files_def namelist_def
  is_pdf_name_def endswith_def lower_def lower_cp_def size_key_def getinfo_def
  strs ord_def download_url_def selected_member_def retrieved_def

lemmas path_defs = pdf_path_def zip_path_def output_dir_eq pdf_filename_def book_id_def
  os_path_join_def sanitize_filename_def re_sub_underscore_def in_class_def

text \<open>What processing leaves at the destination, and what it returns on success.\<close>

lemma destination_after:
  assumes "download_and_extract W st url c s t = (st', r)"
  shows "files st' (pdf_path c s t) =
     (case selected_member W url of
        None \<Rightarrow> files st (pdf_path c s t)
      | Some z \<Rightarrow>
          (case body z of
             Body content \<Rightarrow> Some (Bytes content)
           | Read_raises e \<Rightarrow> Some (Bytes [])
           | Open_raises e \<Rightarrow> files st (pdf_path c s t)))"
  using assms zip_path_not_pdf_path [of c s t]
  by (cases rule: download_and_extract_cases) (auto simp: selected_member_def)

lemma download_and_extract_success:
  "download_and_extract W st url c s t = (st', Inr (Some md)) \<Longrightarrow>
   \<exists>content. retrieved W url = Some content \<and>
     md = \<lparr>md_id = book_id c s t, md_pdf_path = pdf_path c s t,
           md_sha256 = sha256_hexdigest W content\<rparr> \<and>
     files st' = (files st)(zip_path c := None, pdf_path c s t \<mapsto> Bytes content) \<and>
     printed st' =
       printed st @ [Downloading url, Extracting (zip_path c), Saved_pdf (pdf_path c s t)]"
  by (cases rule: download_and_extract_cases)
     (auto simp: selected_member_def retrieved_def split: if_splits)

lemma retrieved_success:
  assumes "retrieved W url = Some content"
  shows "\<exists>st'. download_and_extract W st url c s t =
           (st', Inr (Some \<lparr>md_id = book_id c s t, md_pdf_path = pdf_path c s t,
                            md_sha256 = sha256_hexdigest W content\<rparr>))"
proof -
  obtain st' r where d: "download_and_extract W st url c s t = (st', r)"
    by (cases "download_and_extract W st url c s t")
  from d have "r = Inr (Some \<lparr>md_id = book_id c s t, md_pdf_path = pdf_path c s t,
                            md_sha256 = sha256_hexdigest W content\<rparr>)"
    using assms
    by (cases rule: download_and_extract_cases)
       (auto simp: selected_member_def retrieved_def split: if_splits)
  then show ?thesis using d by simp
qed



lemmas main_defs = main_def parse_arguments_def main_try_def process_book_def download_and_extract_def
  try_body_def fetch_def ZipFile_def zip_open_def except_clauses_def finally_remove_def
  os_path_exists_def os_remove_def write_manifests_def dump_json_def full_disk_world_def CLASS_MAP_def py_int_def is_digit_def
  say_def open_w_def f_write_def gone_world_def empty_disk_def Let_def


section \<open>Claims about download_and_extract\<close>

text \<open>
  Claim C4. The identifier that processing returns depends on class, subject and title
  alone: it is \<^verbatim>\<open>c\<close>, the class, \<^verbatim>\<open>_\<close>, the sanitized subject, \<^verbatim>\<open>_\<close> and the sanitized
  title, whatever the network, the archive, the disk and the URL are, so any two
  successful runs on one triple return one identifier. Class \<^verbatim>\<open>X\<close>, subject \<^verbatim>\<open>S\<close> and
  title \<^verbatim>\<open>T\<close> give \<^verbatim>\<open>cX_s_t\<close>.
\<close>

theorem book_id_deterministic:
  "download_and_extract W st url c s t = (st', Inr (Some md)) \<longrightarrow>
     md_id md = str ''c'' @ c @ str ''_'' @ sanitize_filename s @ str ''_'' @ sanitize_filename t \<and>
     (\<forall>W2 st2 url2 st2' md2.
        download_and_extract W2 st2 url2 c s t = (st2', Inr (Some md2)) \<longrightarrow> md_id md2 = md_id md)"
  by (auto dest!: download_and_extract_success simp: book_id_def)

theorem book_id_deterministic_witness:
  "\<exists>st' md. download_and_extract demo_world empty_disk (str ''https://ncert.nic.in/ab1.zip'')
       (str ''X'') (str ''S'') (str ''T'') = (st', Inr (Some md)) \<and> md_id md = str ''cX_s_t''"
proof -
  have "retrieved demo_world (str ''https://ncert.nic.in/ab1.zip'') = Some [10, 11, 12]"
    by (simp add: demo_defs eval_defs)
  from retrieved_success [OF this] obtain st' md where
    d: "download_and_extract demo_world empty_disk (str ''https://ncert.nic.in/ab1.zip'')
       (str ''X'') (str ''S'') (str ''T'') = (st', Inr (Some md))" by blast
  have "md_id md = str ''cX_s_t''"
    using book_id_deterministic [of demo_world empty_disk "str ''https://ncert.nic.in/ab1.zip''"
        "str ''X''" "str ''S''" "str ''T''" st' md] d
    by (simp add: path_defs eval_defs)
  then show ?thesis using d by blast
qed

text \<open>
  Claim C5, as amended. The content is written to the output path only once it has been
  read in full, but the output file is opened, and so created or emptied, before the
  read. After processing, the output path holds what it held before whenever processing
  stops before the chosen member is read (failed fetch, unreadable archive, no content
  file, member that cannot be opened); it holds an empty file when reading the member
  fails; it holds the complete content of the member on success.
\<close>

theorem destination_written_after_read:
  "files (fst (download_and_extract W st url c s t)) (pdf_path c s t) =
     (case selected_member W url of
        None \<Rightarrow> files st (pdf_path c s t)
      | Some z \<Rightarrow>
          (case body z of
             Body content \<Rightarrow> Some (Bytes content)
           | Read_raises e \<Rightarrow> Some (Bytes [])
           | Open_raises e \<Rightarrow> files st (pdf_path c s t)))"
  using destination_after [of W st url c s t] by (cases "download_and_extract W st url c s t") simp

theorem destination_written_after_read_witness:
  "files (fst (download_and_extract demo_world old_disk (str ''https://ncert.nic.in/ab1.zip'')
          (str ''1'') (str ''Math'') (str ''Cut''))) (pdf_path (str ''1'') (str ''Math'') (str ''Cut''))
     = Some (Bytes [10, 11, 12]) \<and>
   files (fst (download_and_extract demo_world old_disk (str ''https://ncert.nic.in/none.zip'')
          (str ''1'') (str ''Math'') (str ''Cut''))) (pdf_path (str ''1'') (str ''Math'') (str ''Cut''))
     = Some (Bytes [7, 7, 7])"
proof -
  have p: "pdf_path (str ''1'') (str ''Math'') (str ''Cut'') = str ''downloads/class_1/math_cut.pdf''"
    by (simp add: path_defs eval_defs)
  have o: "files old_disk (str ''downloads/class_1/math_cut.pdf'') = Some (Bytes [7, 7, 7])"
    by (simp add: old_disk_def strs ord_def)
  have a: "selected_member demo_world (str ''https://ncert.nic.in/ab1.zip'') =
      Some \<lparr>filename = str ''book.pdf'', file_size = 500, body = Body [10, 11, 12]\<rparr>"
    and b: "selected_member demo_world (str ''https://ncert.nic.in/none.zip'') = None"
    by (simp_all add: demo_defs eval_defs)
  show ?thesis
    using destination_written_after_read [of demo_world old_disk
        "str ''https://ncert.nic.in/ab1.zip''" "str ''1''" "str ''Math''" "str ''Cut''"]
      destination_written_after_read [of demo_world old_disk
        "str ''https://ncert.nic.in/none.zip''" "str ''1''" "str ''Math''" "str ''Cut''"]
      a b p o
    by simp
qed

text \<open>
  Claim C5, as stated, fails when the content file fails its checksum while it is read:
  the entry is skipped, and the output of an earlier run has been replaced by an empty
  file.
\<close>

theorem destination_emptied_by_failed_read:
  "snd (download_and_extract demo_world old_disk (str ''https://ncert.nic.in/crc.zip'')
          (str ''1'') (str ''Math'') (str ''Crc'')) = Inr None \<and>
   pdf_path (str ''1'') (str ''Math'') (str ''Crc'') = str ''downloads/class_1/math_crc.pdf'' \<and>
   files old_disk (str ''downloads/class_1/math_crc.pdf'') = Some (Bytes [8, 8]) \<and>
   files (fst (download_and_extract demo_world old_disk (str ''https://ncert.nic.in/crc.zip'')
          (str ''1'') (str ''Math'') (str ''Crc''))) (str ''downloads/class_1/math_crc.pdf'') =
     Some (Bytes [])"
proof -
  obtain st' r where d: "download_and_extract demo_world old_disk
      (str ''https://ncert.nic.in/crc.zip'') (str ''1'') (str ''Math'') (str ''Crc'') = (st', r)"
    by (cases "download_and_extract demo_world old_disk
      (str ''https://ncert.nic.in/crc.zip'') (str ''1'') (str ''Math'') (str ''Crc'')")
  have p: "pdf_path (str ''1'') (str ''Math'') (str ''Crc'') = str ''downloads/class_1/math_crc.pdf''"
    by (simp add: path_defs eval_defs)
  have sel: "selected_member demo_world (str ''https://ncert.nic.in/crc.zip'') =
      Some \<lparr>filename = str ''book.pdf'', file_size = 500, body = Read_raises BadZipFile\<rparr>"
    by (simp add: demo_defs eval_defs)
  have "files st' (str ''downloads/class_1/math_crc.pdf'') = Some (Bytes [])"
    using destination_after [OF d] sel p by simp
  moreover from d have "r = Inr None"
    using sel by (cases rule: download_and_extract_cases) (auto simp: selected_member_def split: if_splits)
  moreover have "files old_disk (str ''downloads/class_1/math_crc.pdf'') = Some (Bytes [8, 8])"
    by (simp add: old_disk_def strs ord_def)
  ultimately show ?thesis using d p by simp
qed

text \<open>
  Claim C6. When the fetch fails, at the request, at the status check or partway through
  the stream, processing reports the failed download and returns no metadata, and every
  file other than the temporary one, the output file among them, is as it was before.
  Whatever happens, no file is left at the temporary path when processing ends.
\<close>

theorem fetch_failure_leaves_no_temporary_file:
  assumes "download_and_extract W st url c s t = (st', r)"
  shows "(\<forall>e. fetch_outcome (http_get W url) = Inl e \<longrightarrow>
            r = Inr None \<and>
            printed st' =
              printed st @ [Downloading url, Failed_download url (RequestException e)] \<and>
            files st' (pdf_path c s t) = files st (pdf_path c s t) \<and>
            (\<forall>p. p \<noteq> zip_path c \<longrightarrow> files st' p = files st p)) \<and>
         files st' (zip_path c) = None"
  using assms zip_path_not_pdf_path [of c s t]
  by (cases rule: download_and_extract_cases) auto

theorem fetch_failure_leaves_no_temporary_file_witness:
  "fetch_outcome (http_get demo_world (str ''https://ncert.nic.in/cut.zip'')) =
     Inl ChunkedEncodingError \<and>
   snd (download_and_extract demo_world old_disk (str ''https://ncert.nic.in/cut.zip'')
          (str ''1'') (str ''Math'') (str ''Cut'')) = Inr None \<and>
   files old_disk (zip_path (str ''1'')) = Some (Bytes [9]) \<and>
   files (fst (download_and_extract demo_world old_disk (str ''https://ncert.nic.in/cut.zip'')
          (str ''1'') (str ''Math'') (str ''Cut''))) (zip_path (str ''1'')) = None \<and>
   files (fst (download_and_extract demo_world old_disk (str ''https://ncert.nic.in/cut.zip'')
          (str ''1'') (str ''Math'') (str ''Cut''))) (pdf_path (str ''1'') (str ''Math'') (str ''Cut''))
     = Some (Bytes [7, 7, 7])"
proof -
  obtain st' r where d: "download_and_extract demo_world old_disk
      (str ''https://ncert.nic.in/cut.zip'') (str ''1'') (str ''Math'') (str ''Cut'') = (st', r)"
    by (cases "download_and_extract demo_world old_disk
      (str ''https://ncert.nic.in/cut.zip'') (str ''1'') (str ''Math'') (str ''Cut'')")
  have f: "fetch_outcome (http_get demo_world (str ''https://ncert.nic.in/cut.zip'')) =
     Inl ChunkedEncodingError"
    by (simp add: demo_defs eval_defs)
  have p: "pdf_path (str ''1'') (str ''Math'') (str ''Cut'') = str ''downloads/class_1/math_cut.pdf''"
    and z: "zip_path (str ''1'') = str ''downloads/class_1/temp.zip''"
    by (simp_all add: path_defs eval_defs)
  have o: "files old_disk (str ''downloads/class_1/math_cut.pdf'') = Some (Bytes [7, 7, 7])"
    "files old_disk (str ''downloads/class_1/temp.zip'') = Some (Bytes [9])"
    by (simp_all add: old_disk_def strs ord_def)
  show ?thesis using fetch_failure_leaves_no_temporary_file [OF d] f d p z o by simp
qed

text \<open>
  Claim C7. When the archive is fetched and readable and none of its entries has a name
  ending in the content extension, processing reports that no content file was found and
  returns no metadata without raising, and it changes no file but the temporary one, which
  it removes: the output path is neither created nor overwritten. The iteration of the
  loop of \<^verbatim>\<open>main\<close> for such an entry ends without an exception and leaves both
  accumulators as they were, so the run goes on with the next entry.
\<close>

theorem no_content_file_skips_entry:
  assumes "fetch_outcome (http_get W url) = Inr b" and "zip_read W b = Some zs"
    and "\<forall>z\<in>set zs. \<not> is_pdf_name (filename z)"
  shows "(\<exists>st'. download_and_extract W st url c s t = (st', Inr None) \<and>
            printed st' =
              printed st @ [Downloading url, Extracting (zip_path c), No_pdf_found (zip_path c)] \<and>
            files st' (pdf_path c s t) = files st (pdf_path c s t) \<and>
            files st' = (files st)(zip_path c := None)) \<and>
         (\<forall>cn href track hashes.
            detail_view W cn s t = Download_link (Some href) \<and> download_url href = url \<longrightarrow>
            (\<exists>st'. process_book W c cn (s, t) st track hashes = (st', Inr (track, hashes))))"
proof -
  have nopdf: "pdf_files zs = []"
    using assms(3) by (auto simp: pdf_files_def namelist_def filter_empty_conv)
  have skip: "\<exists>st'. download_and_extract W st0 url c s t = (st', Inr None) \<and>
           printed st' =
             printed st0 @ [Downloading url, Extracting (zip_path c), No_pdf_found (zip_path c)] \<and>
           files st' (pdf_path c s t) = files st0 (pdf_path c s t) \<and>
           files st' = (files st0)(zip_path c := None)" for st0
  proof -
    obtain st' r where d: "download_and_extract W st0 url c s t = (st', r)"
      by (cases "download_and_extract W st0 url c s t")
    from d have "r = Inr None \<and>
           printed st' =
             printed st0 @ [Downloading url, Extracting (zip_path c), No_pdf_found (zip_path c)] \<and>
           files st' (pdf_path c s t) = files st0 (pdf_path c s t) \<and>
           files st' = (files st0)(zip_path c := None)"
      using assms(1,2) nopdf zip_path_not_pdf_path [of c s t]
      by (cases rule: download_and_extract_cases) auto
    then show ?thesis using d by blast
  qed
  have "\<exists>st'. process_book W c cn (s, t) st track hashes = (st', Inr (track, hashes))"
    if "detail_view W cn s t = Download_link (Some href)" "download_url href = url"
    for cn href track hashes
  proof -
    from skip [of "say (Processing s t) st"] obtain st' where
      "download_and_extract W (say (Processing s t) st) url c s t = (st', Inr None)" by blast
    then show ?thesis using that by (simp add: process_book_def)
  qed
  then show ?thesis using skip [of st] by blast
qed

theorem no_content_file_skips_entry_witness:
  "fetch_outcome (http_get demo_world (str ''https://ncert.nic.in/nopdf.zip'')) = Inr [4] \<and>
   zip_read demo_world [4] = Some cover_archive \<and>
   list_all (\<lambda>z. \<not> is_pdf_name (filename z)) cover_archive \<and>
   detail_view demo_world (str ''Class I'') (str ''Math'') (str ''Plates'') =
     Download_link (Some (str ''nopdf.zip'')) \<and>
   (\<exists>st'. download_and_extract demo_world old_disk (str ''https://ncert.nic.in/nopdf.zip'')
       (str ''1'') (str ''Math'') (str ''Cut'') = (st', Inr None) \<and>
      files st' (pdf_path (str ''1'') (str ''Math'') (str ''Cut'')) = Some (Bytes [7, 7, 7])) \<and>
   (\<exists>st'. process_book demo_world (str ''1'') (str ''Class I'') (str ''Math'', str ''Plates'')
       empty_disk [first_entry] [] = (st', Inr ([first_entry], [])))"
proof -
  have f: "fetch_outcome (http_get demo_world (str ''https://ncert.nic.in/nopdf.zip'')) = Inr [4]"
    and z: "zip_read demo_world [4] = Some cover_archive"
    by (simp_all add: demo_defs eval_defs)
  have n: "\<forall>z\<in>set cover_archive. \<not> is_pdf_name (filename z)"
    by (simp add: cover_archive_def eval_defs)
  have p: "pdf_path (str ''1'') (str ''Math'') (str ''Cut'') = str ''downloads/class_1/math_cut.pdf''"
    by (simp add: path_defs eval_defs)
  have o: "files old_disk (str ''downloads/class_1/math_cut.pdf'') = Some (Bytes [7, 7, 7])"
    by (simp add: old_disk_def strs ord_def)
  have d: "detail_view demo_world (str ''Class I'') (str ''Math'') (str ''Plates'') =
      Download_link (Some (str ''nopdf.zip''))"
    and u: "download_url (str ''nopdf.zip'') = str ''https://ncert.nic.in/nopdf.zip''"
    by (simp_all add: demo_defs eval_defs)
  from no_content_file_skips_entry [OF f z n, of old_disk "str ''1''" "str ''Math''" "str ''Cut''"]
  have a: "\<exists>st'. download_and_extract demo_world old_disk (str ''https://ncert.nic.in/nopdf.zip'')
       (str ''1'') (str ''Math'') (str ''Cut'') = (st', Inr None) \<and>
      files st' (pdf_path (str ''1'') (str ''Math'') (str ''Cut'')) = Some (Bytes [7, 7, 7])"
    using p o by auto
  from no_content_file_skips_entry [OF f z n, of empty_disk "str ''1''" "str ''Math''" "str ''Plates''"]
  have b: "\<exists>st'. process_book demo_world (str ''1'') (str ''Class I'') (str ''Math'', str ''Plates'')
       empty_disk [first_entry] [] = (st', Inr ([first_entry], []))"
    using d u by blast
  show ?thesis using f z n d a b by (simp add: list_all_iff)
qed
section \<open>One iteration of the loop of main\<close>

lemma process_book_cases:
  assumes pb: "process_book W c cn (s, t) st track hashes = (st', res)"
  obtains
    (navigation_raises) e where "detail_view W cn s t = Navigation_raises e" "res = Inl e"
      "files st' = files st" "printed st' = printed st @ [Processing s t]"
  | (no_link) "detail_view W cn s t = No_download_link" "res = Inr (track, hashes)"
      "files st' = files st" "printed st' = printed st @ [Processing s t, No_link_skipping t]"
  | (no_href) "detail_view W cn s t = Download_link None" "res = Inl KeyError"
      "files st' = files st" "printed st' = printed st @ [Processing s t]"
  | (skipped) href where "detail_view W cn s t = Download_link (Some href)"
      "download_and_extract W (say (Processing s t) st) (download_url href) c s t =
         (st', Inr None)"
      "res = Inr (track, hashes)"
  | (raised) href e where "detail_view W cn s t = Download_link (Some href)"
      "download_and_extract W (say (Processing s t) st) (download_url href) c s t =
         (st', Inl e)"
      "res = Inl e"
  | (bad_class) href md e where "detail_view W cn s t = Download_link (Some href)"
      "download_and_extract W (say (Processing s t) st) (download_url href) c s t =
         (st', Inr (Some md))"
      "py_int c = Inl e" "res = Inl e"
  | (recorded) href md n where "detail_view W cn s t = Download_link (Some href)"
      "download_and_extract W (say (Processing s t) st) (download_url href) c s t =
         (st', Inr (Some md))"
      "py_int c = Inr n"
      "res = Inr (track @ [\<lparr>be_id = md_id md, be_class = n, be_subject = s, be_title = t,
                             be_pdf_path = md_pdf_path md,
                             be_download_url = download_url href\<rparr>],
                  dict_set (md_id md) (md_sha256 md) hashes)"
proof (cases "detail_view W cn s t")
  case (Navigation_raises e)
  then show ?thesis using pb navigation_raises [of e] by (auto simp: process_book_def)
next
  case No_download_link
  then show ?thesis using pb no_link by (auto simp: process_book_def)
next
  case (Download_link h)
  show ?thesis
  proof (cases h)
    case None
    then show ?thesis using pb Download_link no_href by (auto simp: process_book_def)
  next
    case (Some href)
    obtain st2 r where
      d: "download_and_extract W (say (Processing s t) st) (download_url href) c s t = (st2, r)"
      by (cases "download_and_extract W (say (Processing s t) st) (download_url href) c s t")
    show ?thesis
    proof (cases r)
      case (Inl e)
      then show ?thesis using pb Download_link Some d raised [of href e]
        by (auto simp: process_book_def)
    next
      case (Inr v)
      show ?thesis
      proof (cases v)
        case None
        then show ?thesis using pb Download_link Some d Inr skipped [of href]
          by (auto simp: process_book_def)
      next
        case (Some md)
        show ?thesis
        proof (cases "py_int c")
          case (Inl e)
          then show ?thesis
            using pb Download_link \<open>h = Some href\<close> d \<open>r = Inr v\<close> Some bad_class [of href md e]
            by (auto simp: process_book_def)
        next
          case (Inr n)
          then show ?thesis
            using pb Download_link \<open>h = Some href\<close> d \<open>r = Inr v\<close> Some recorded [of href md n]
            by (auto simp: process_book_def)
        qed
      qed
    qed
  qed
qed

text \<open>What every call of \<open>download_and_extract\<close> leaves alone, and what it prints.\<close>

lemma download_and_extract_frame:
  assumes "download_and_extract W st url c s t = (st', r)"
  shows "p \<noteq> zip_path c \<Longrightarrow> p \<noteq> pdf_path c s t \<Longrightarrow> files st' p = files st p"
    and "\<exists>evs. printed st' = printed st @ evs \<and> Writing_manifests \<notin> set evs"
proof -
  show "p \<noteq> zip_path c \<Longrightarrow> p \<noteq> pdf_path c s t \<Longrightarrow> files st' p = files st p"
    using assms by (cases rule: download_and_extract_cases) auto
  show "\<exists>evs. printed st' = printed st @ evs \<and> Writing_manifests \<notin> set evs"
    using assms
  proof (cases rule: download_and_extract_cases)
    case (open_raises b zs name z e evs)
    then have "Writing_manifests \<notin> set ([Downloading url, Extracting (zip_path c)] @ evs)"
      by auto
    then show ?thesis using open_raises(9) by blast
  next
    case (read_raises b zs name z e evs)
    then have "Writing_manifests \<notin> set ([Downloading url, Extracting (zip_path c)] @ evs)"
      by auto
    then show ?thesis using read_raises(9) by blast
  qed auto
qed

lemma process_book_frame:
  assumes "process_book W c cn (s, t) st track hashes = (st', res)"
  shows "files st' (str ''books_to_track.json'') = files st (str ''books_to_track.json'')"
    and "files st' (str ''hashes.json'') = files st (str ''hashes.json'')"
    and "\<exists>evs. printed st' = printed st @ Processing s t # evs \<and> Writing_manifests \<notin> set evs"
proof -
  have keep: "files st2 (str ''books_to_track.json'') = files st (str ''books_to_track.json'') \<and>
      files st2 (str ''hashes.json'') = files st (str ''hashes.json'') \<and>
      (\<exists>evs. printed st2 = printed st @ Processing s t # evs \<and> Writing_manifests \<notin> set evs)"
    if "download_and_extract W (say (Processing s t) st) url c s t = (st2, r)" for st2 r url
  proof -
    from download_and_extract_frame(2) [OF that] obtain evs where
      "printed st2 = printed st @ Processing s t # evs" "Writing_manifests \<notin> set evs" by auto
    then show ?thesis
      using download_and_extract_frame(1) [OF that] manifest_not_pdf_path [of c s t]
        manifest_not_zip_path [of c]
      by (metis say_simps(1))
  qed
  from assms have "files st' (str ''books_to_track.json'') = files st (str ''books_to_track.json'') \<and>
      files st' (str ''hashes.json'') = files st (str ''hashes.json'') \<and>
      (\<exists>evs. printed st' = printed st @ Processing s t # evs \<and> Writing_manifests \<notin> set evs)"
    by (cases rule: process_book_cases) (auto dest: keep)
  then show "files st' (str ''books_to_track.json'') = files st (str ''books_to_track.json'')"
    and "files st' (str ''hashes.json'') = files st (str ''hashes.json'')"
    and "\<exists>evs. printed st' = printed st @ Processing s t # evs \<and> Writing_manifests \<notin> set evs"
    by blast+
qed

lemma dict_set_keys: "fst ` set (dict_set k v d) = insert k (fst ` set d)"
  by (induction k v d rule: dict_set.induct) (simp, force)

lemma dict_set_map_of: "map_of (dict_set k v d) = (map_of d)(k \<mapsto> v)"
  by (induction k v d rule: dict_set.induct) (auto simp: fun_eq_iff)

lemma dict_set_present: "k \<in> fst ` set d \<Longrightarrow> map fst (dict_set k v d) = map fst d"
  by (induction k v d rule: dict_set.induct) (simp, force)

lemma process_book_invariant:
  assumes "process_book W c cn (s, t) st track hashes = (st', Inr (track', hashes'))"
    and "list_all (success_entry W c cn) track" and "fst ` set hashes = be_id ` set track"
    and "\<forall>be\<in>set track. (be_subject be, be_title be) \<in> B"
  shows "list_all (success_entry W c cn) track'" and "fst ` set hashes' = be_id ` set track'"
    and "\<forall>be\<in>set track'. (be_subject be, be_title be) \<in> insert (s, t) B"
proof -
  from assms(1) have "list_all (success_entry W c cn) track' \<and>
      fst ` set hashes' = be_id ` set track' \<and>
      (\<forall>be\<in>set track'. (be_subject be, be_title be) \<in> insert (s, t) B)"
  proof (cases rule: process_book_cases)
    case (recorded href md n)
    from download_and_extract_success [OF recorded(2)] obtain content where
      c: "retrieved W (download_url href) = Some content"
         "md = \<lparr>md_id = book_id c s t, md_pdf_path = pdf_path c s t,
               md_sha256 = sha256_hexdigest W content\<rparr>" by blast
    have "success_entry W c cn \<lparr>be_id = md_id md, be_class = n, be_subject = s, be_title = t,
        be_pdf_path = md_pdf_path md, be_download_url = download_url href\<rparr>"
      using recorded(1) c by (simp add: success_entry_def)
    then show ?thesis using recorded(4) assms(2-4) by (auto simp: dict_set_keys)
  qed (use assms(2-4) in auto)
  then show "list_all (success_entry W c cn) track'" and "fst ` set hashes' = be_id ` set track'"
    and "\<forall>be\<in>set track'. (be_subject be, be_title be) \<in> insert (s, t) B" by blast+
qed


section \<open>The loop and the run\<close>

lemma process_books_run:
  assumes "process_books W c cn books st track hashes = (st', res)"
  shows "files st' (str ''books_to_track.json'') = files st (str ''books_to_track.json'') \<and>
         files st' (str ''hashes.json'') = files st (str ''hashes.json'') \<and>
         (\<exists>evs. printed st' = printed st @ evs \<and> Writing_manifests \<notin> set evs \<and>
            (\<forall>track' hashes'. res = Inr (track', hashes') \<longrightarrow>
               (\<forall>(s, t)\<in>set books. Processing s t \<in> set evs)))"
  using assms
proof (induction books arbitrary: st track hashes)
  case Nil
  then show ?case by simp
next
  case (Cons book rest)
  obtain s t where book: "book = (s, t)" by (cases book)
  obtain st1 r1 where pb: "process_book W c cn (s, t) st track hashes = (st1, r1)"
    by (cases "process_book W c cn (s, t) st track hashes")
  from process_book_frame [OF pb] obtain evs1 where
    f1: "files st1 (str ''books_to_track.json'') = files st (str ''books_to_track.json'')"
        "files st1 (str ''hashes.json'') = files st (str ''hashes.json'')"
        "printed st1 = printed st @ Processing s t # evs1" "Writing_manifests \<notin> set evs1"
    by blast
  show ?case
  proof (cases r1)
    case (Inl e)
    then have "st' = st1" "res = Inl e" using Cons.prems pb book by simp_all
    then show ?thesis using f1 by auto
  next
    case (Inr acc)
    obtain track1 hashes1 where acc: "acc = (track1, hashes1)" by (cases acc)
    have "process_books W c cn rest st1 track1 hashes1 = (st', res)"
      using Cons.prems pb book Inr acc by simp
    from Cons.IH [OF this] obtain evs2 where
      f2: "files st' (str ''books_to_track.json'') = files st1 (str ''books_to_track.json'')"
          "files st' (str ''hashes.json'') = files st1 (str ''hashes.json'')"
          "printed st' = printed st1 @ evs2" "Writing_manifests \<notin> set evs2"
          "\<forall>track' hashes'. res = Inr (track', hashes') \<longrightarrow>
             (\<forall>(s, t)\<in>set rest. Processing s t \<in> set evs2)"
      by blast
    have "printed st' = printed st @ (Processing s t # evs1 @ evs2)" using f1(3) f2(3) by simp
    moreover have "Writing_manifests \<notin> set (Processing s t # evs1 @ evs2)"
      using f1(4) f2(4) by simp
    moreover have "\<forall>track' hashes'. res = Inr (track', hashes') \<longrightarrow>
        (\<forall>(s', t')\<in>set (book # rest). Processing s' t' \<in> set (Processing s t # evs1 @ evs2))"
      using f2(5) book by auto
    ultimately have "\<exists>evs. printed st' = printed st @ evs \<and> Writing_manifests \<notin> set evs \<and>
        (\<forall>track' hashes'. res = Inr (track', hashes') \<longrightarrow>
           (\<forall>(s, t)\<in>set (book # rest). Processing s t \<in> set evs))"
      by blast
    then show ?thesis using f1(1,2) f2(1,2) by simp
  qed
qed

lemma process_books_invariant:
  assumes "process_books W c cn books st track hashes = (st', Inr (track', hashes'))"
    and "list_all (success_entry W c cn) track" and "fst ` set hashes = be_id ` set track"
    and "\<forall>be\<in>set track. (be_subject be, be_title be) \<in> B"
  shows "list_all (success_entry W c cn) track' \<and> fst ` set hashes' = be_id ` set track' \<and>
         (\<forall>be\<in>set track'. (be_subject be, be_title be) \<in> B \<union> set books)"
  using assms
proof (induction books arbitrary: st track hashes B)
  case Nil
  then show ?case by simp
next
  case (Cons book rest)
  obtain s t where book: "book = (s, t)" by (cases book)
  obtain st1 r1 where pb: "process_book W c cn (s, t) st track hashes = (st1, r1)"
    by (cases "process_book W c cn (s, t) st track hashes")
  show ?case
  proof (cases r1)
    case (Inl e)
    then show ?thesis using Cons.prems(1) pb book by simp
  next
    case (Inr acc)
    obtain track1 hashes1 where acc: "acc = (track1, hashes1)" by (cases acc)
    have rest: "process_books W c cn rest st1 track1 hashes1 = (st', Inr (track', hashes'))"
      using Cons.prems(1) pb book Inr acc by simp
    have pb1: "process_book W c cn (s, t) st track hashes = (st1, Inr (track1, hashes1))"
      using pb Inr acc by simp
    from Cons.IH [OF rest process_book_invariant [OF pb1 Cons.prems(2,3,4)]]
    show ?thesis using book by auto
  qed
qed

lemma manifest_paths_differ: "str ''books_to_track.json'' \<noteq> str ''hashes.json''"
  by (simp add: strs ord_def)

lemma dump_json_run:
  assumes "dump_json W path doc st = (st', x)"
  shows "files st' path =
           (case manifest_write W path of
              Written \<Rightarrow> Some doc
            | Cannot_open e \<Rightarrow> files st path
            | Cannot_write e \<Rightarrow> Some Unfinished_json)"
    and "p \<noteq> path \<Longrightarrow> files st' p = files st p"
    and "printed st' = printed st"
    and "x = None \<longleftrightarrow> manifest_write W path = Written"
  using assms by (auto simp: dump_json_def split: write_outcome.splits)

lemma write_manifests_run:
  assumes "write_manifests W track hashes st = (st', x)"
  shows "files st' (str ''books_to_track.json'') =
           (case manifest_write W (str ''books_to_track.json'') of
              Written \<Rightarrow> Some (Books_json track)
            | Cannot_open e \<Rightarrow> files st (str ''books_to_track.json'')
            | Cannot_write e \<Rightarrow> Some Unfinished_json)"
    and "files st' (str ''hashes.json'') =
           (case manifest_write W (str ''books_to_track.json'') of
              Written \<Rightarrow>
                (case manifest_write W (str ''hashes.json'') of
                   Written \<Rightarrow> Some (Hashes_json hashes)
                 | Cannot_open e \<Rightarrow> files st (str ''hashes.json'')
                 | Cannot_write e \<Rightarrow> Some Unfinished_json)
            | Cannot_open e \<Rightarrow> files st (str ''hashes.json'')
            | Cannot_write e \<Rightarrow> files st (str ''hashes.json''))"
    and "printed st' =
           printed st @ Writing_manifests # (if x = None then [Manifests_created] else [])"
    and "x = None \<longleftrightarrow>
           manifest_write W (str ''books_to_track.json'') = Written \<and>
           manifest_write W (str ''hashes.json'') = Written"
proof -
  obtain st1 x1 where d1: "dump_json W (str ''books_to_track.json'') (Books_json track)
      (say Writing_manifests st) = (st1, x1)"
    by (cases "dump_json W (str ''books_to_track.json'') (Books_json track)
      (say Writing_manifests st)")
  note r1 = dump_json_run [OF d1]
  have all: "files st' (str ''books_to_track.json'') =
           (case manifest_write W (str ''books_to_track.json'') of
              Written \<Rightarrow> Some (Books_json track)
            | Cannot_open e \<Rightarrow> files st (str ''books_to_track.json'')
            | Cannot_write e \<Rightarrow> Some Unfinished_json) \<and>
         files st' (str ''hashes.json'') =
           (case manifest_write W (str ''books_to_track.json'') of
              Written \<Rightarrow>
                (case manifest_write W (str ''hashes.json'') of
                   Written \<Rightarrow> Some (Hashes_json hashes)
                 | Cannot_open e \<Rightarrow> files st (str ''hashes.json'')
                 | Cannot_write e \<Rightarrow> Some Unfinished_json)
            | Cannot_open e \<Rightarrow> files st (str ''hashes.json'')
            | Cannot_write e \<Rightarrow> files st (str ''hashes.json'')) \<and>
         printed st' =
           printed st @ Writing_manifests # (if x = None then [Manifests_created] else []) \<and>
         (x = None \<longleftrightarrow>
           manifest_write W (str ''books_to_track.json'') = Written \<and>
           manifest_write W (str ''hashes.json'') = Written)"
  proof (cases x1)
    case (Some e)
    then have "st' = st1" "x = Some e" using assms d1 by (simp_all add: write_manifests_def)
    then show ?thesis
      using r1(1,3,4) r1(2) [of "str ''hashes.json''"] Some manifest_paths_differ
      by (auto split: write_outcome.splits)
  next
    case None
    then have w1: "manifest_write W (str ''books_to_track.json'') = Written" using r1(4) by simp
    obtain st2 x2 where d2: "dump_json W (str ''hashes.json'') (Hashes_json hashes) st1 = (st2, x2)"
      by (cases "dump_json W (str ''hashes.json'') (Hashes_json hashes) st1")
    note r2 = dump_json_run [OF d2]
    have b: "files st2 (str ''books_to_track.json'') = Some (Books_json track)"
      using r2(2) [of "str ''books_to_track.json''"] r1(1) w1 manifest_paths_differ by simp
    have h1: "files st1 (str ''hashes.json'') = files st (str ''hashes.json'')"
      using r1(2) [of "str ''hashes.json''"] manifest_paths_differ by simp
    show ?thesis
    proof (cases x2)
      case (Some e)
      then have "st' = st2" "x = Some e"
        using assms d1 d2 None by (simp_all add: write_manifests_def)
      then show ?thesis using b h1 w1 r1(3) r2(1,3,4) Some
        by (auto split: write_outcome.splits)
    next
      case n2: None
      then have "st' = say Manifests_created st2" "x = None"
        using assms d1 d2 None by (simp_all add: write_manifests_def)
      then show ?thesis using b h1 w1 r1(3) r2(1,3,4) n2
        by (auto split: write_outcome.splits)
    qed
  qed
  show "files st' (str ''books_to_track.json'') =
           (case manifest_write W (str ''books_to_track.json'') of
              Written \<Rightarrow> Some (Books_json track)
            | Cannot_open e \<Rightarrow> files st (str ''books_to_track.json'')
            | Cannot_write e \<Rightarrow> Some Unfinished_json)"
    and "files st' (str ''hashes.json'') =
           (case manifest_write W (str ''books_to_track.json'') of
              Written \<Rightarrow>
                (case manifest_write W (str ''hashes.json'') of
                   Written \<Rightarrow> Some (Hashes_json hashes)
                 | Cannot_open e \<Rightarrow> files st (str ''hashes.json'')
                 | Cannot_write e \<Rightarrow> Some Unfinished_json)
            | Cannot_open e \<Rightarrow> files st (str ''hashes.json'')
            | Cannot_write e \<Rightarrow> files st (str ''hashes.json''))"
    and "printed st' =
           printed st @ Writing_manifests # (if x = None then [Manifests_created] else [])"
    and "x = None \<longleftrightarrow>
           manifest_write W (str ''books_to_track.json'') = Written \<and>
           manifest_write W (str ''hashes.json'') = Written"
    using all by blast+
qed

lemma main_try_run:
  assumes "main_try W c cn st = (st', r)"
  shows "\<exists>evs. printed st' = printed st @ evs \<and>
     (if Writing_manifests \<in> set evs then
        (\<exists>subjects books track hashes pre.
           subject_options W cn = Inr subjects \<and> gather_books W cn subjects [] = Inr books \<and>
           evs = pre @ Writing_manifests # (if r = Inr () then [Manifests_created] else []) \<and>
           Writing_manifests \<notin> set pre \<and>
           (\<forall>(s, t)\<in>set books. Processing s t \<in> set pre) \<and>
           list_all (success_entry W c cn) track \<and>
           (\<forall>be\<in>set track. (be_subject be, be_title be) \<in> set books) \<and>
           fst ` set hashes = be_id ` set track \<and>
           files st' (str ''books_to_track.json'') =
             (case manifest_write W (str ''books_to_track.json'') of
                Written \<Rightarrow> Some (Books_json track)
              | Cannot_open e \<Rightarrow> files st (str ''books_to_track.json'')
              | Cannot_write e \<Rightarrow> Some Unfinished_json) \<and>
           files st' (str ''hashes.json'') =
             (case manifest_write W (str ''books_to_track.json'') of
                Written \<Rightarrow>
                  (case manifest_write W (str ''hashes.json'') of
                     Written \<Rightarrow> Some (Hashes_json hashes)
                   | Cannot_open e \<Rightarrow> files st (str ''hashes.json'')
                   | Cannot_write e \<Rightarrow> Some Unfinished_json)
              | Cannot_open e \<Rightarrow> files st (str ''hashes.json'')
              | Cannot_write e \<Rightarrow> files st (str ''hashes.json'')) \<and>
           (r = Inr () \<longleftrightarrow>
              manifest_write W (str ''books_to_track.json'') = Written \<and>
              manifest_write W (str ''hashes.json'') = Written))
      else
        (\<exists>e. r = Inl e) \<and>
        files st' (str ''books_to_track.json'') = files st (str ''books_to_track.json'') \<and>
        files st' (str ''hashes.json'') = files st (str ''hashes.json''))"
proof (cases "subject_options W cn")
  case (Inl e)
  then have "st' = say Gathering st" "r = Inl e" using assms by (simp_all add: main_try_def)
  then show ?thesis by simp
next
  case (Inr subjects)
  show ?thesis
  proof (cases "gather_books W cn subjects []")
    case (Inl e)
    then have "st' = say Gathering st" "r = Inl e"
      using assms Inr by (simp_all add: main_try_def)
    then show ?thesis by simp
  next
    case gb: (Inr books)
    define st1 where "st1 = say (Found (length books)) (say Gathering st)"
    obtain st2 res where
      pbs: "process_books W c cn books st1 [] [] = (st2, res)"
      by (cases "process_books W c cn books st1 [] []")
    from process_books_run [OF pbs] obtain evs where
      run: "files st2 (str ''books_to_track.json'') = files st1 (str ''books_to_track.json'')"
           "files st2 (str ''hashes.json'') = files st1 (str ''hashes.json'')"
           "printed st2 = printed st1 @ evs" "Writing_manifests \<notin> set evs"
           "\<forall>track' hashes'. res = Inr (track', hashes') \<longrightarrow>
              (\<forall>(s, t)\<in>set books. Processing s t \<in> set evs)"
      by blast
    define pre where "pre = [Gathering, Found (length books)] @ evs"
    have p2: "printed st2 = printed st @ pre"
      using run(3) by (simp add: st1_def pre_def)
    have nw: "Writing_manifests \<notin> set pre"
      using run(4) by (simp add: pre_def)
    have f2: "files st2 (str ''books_to_track.json'') = files st (str ''books_to_track.json'')"
      "files st2 (str ''hashes.json'') = files st (str ''hashes.json'')"
      using run(1,2) by (simp_all add: st1_def)
    show ?thesis
    proof (cases res)
      case (Inl e)
      then have "st' = st2" "r = Inl e"
        using assms Inr gb pbs by (simp_all add: main_try_def st1_def)
      then show ?thesis using p2 nw f2 by auto
    next
      case res: (Inr acc)
      obtain track hashes where acc: "acc = (track, hashes)" by (cases acc)
      obtain st3 x where wm: "write_manifests W track hashes st2 = (st3, x)"
        by (cases "write_manifests W track hashes st2")
      have st': "st' = st3" and r: "r = (case x of Some e \<Rightarrow> Inl e | None \<Rightarrow> Inr ())"
        using assms Inr gb pbs res acc wm
        by (auto simp: main_try_def st1_def split: option.splits)
      have rx: "r = Inr () \<longleftrightarrow> x = None" using r by (cases x) auto
      note w = write_manifests_run [OF wm]
      have pbs': "process_books W c cn books st1 [] [] = (st2, Inr (track, hashes))"
        using pbs res acc by simp
      from process_books_invariant [OF pbs', of "{}"]
      have inv: "list_all (success_entry W c cn) track" "fst ` set hashes = be_id ` set track"
        "\<forall>be\<in>set track. (be_subject be, be_title be) \<in> set books" by simp_all
      define evs' where
        "evs' = pre @ Writing_manifests # (if r = Inr () then [Manifests_created] else [])"
      have pr: "printed st' = printed st @ evs'"
        using st' p2 w(3) rx by (simp add: evs'_def)
      have inw: "Writing_manifests \<in> set evs'" by (simp add: evs'_def)
      have proc: "\<forall>(s, t)\<in>set books. Processing s t \<in> set pre"
        using run(5) res acc by (auto simp: pre_def)
      have fb: "files st' (str ''books_to_track.json'') =
             (case manifest_write W (str ''books_to_track.json'') of
                Written \<Rightarrow> Some (Books_json track)
              | Cannot_open e \<Rightarrow> files st (str ''books_to_track.json'')
              | Cannot_write e \<Rightarrow> Some Unfinished_json)"
        using w(1) f2(1) st' by (simp split: write_outcome.splits)
      have fh: "files st' (str ''hashes.json'') =
             (case manifest_write W (str ''books_to_track.json'') of
                Written \<Rightarrow>
                  (case manifest_write W (str ''hashes.json'') of
                     Written \<Rightarrow> Some (Hashes_json hashes)
                   | Cannot_open e \<Rightarrow> files st (str ''hashes.json'')
                   | Cannot_write e \<Rightarrow> Some Unfinished_json)
              | Cannot_open e \<Rightarrow> files st (str ''hashes.json'')
              | Cannot_write e \<Rightarrow> files st (str ''hashes.json''))"
        using w(2) f2(2) st' by (simp split: write_outcome.splits)
      have ok: "r = Inr () \<longleftrightarrow>
              manifest_write W (str ''books_to_track.json'') = Written \<and>
              manifest_write W (str ''hashes.json'') = Written"
        using rx w(4) by simp
      have "\<exists>subjects books track hashes pre.
           subject_options W cn = Inr subjects \<and> gather_books W cn subjects [] = Inr books \<and>
           evs' = pre @ Writing_manifests # (if r = Inr () then [Manifests_created] else []) \<and>
           Writing_manifests \<notin> set pre \<and>
           (\<forall>(s, t)\<in>set books. Processing s t \<in> set pre) \<and>
           list_all (success_entry W c cn) track \<and>
           (\<forall>be\<in>set track. (be_subject be, be_title be) \<in> set books) \<and>
           fst ` set hashes = be_id ` set track \<and>
           files st' (str ''books_to_track.json'') =
             (case manifest_write W (str ''books_to_track.json'') of
                Written \<Rightarrow> Some (Books_json track)
              | Cannot_open e \<Rightarrow> files st (str ''books_to_track.json'')
              | Cannot_write e \<Rightarrow> Some Unfinished_json) \<and>
           files st' (str ''hashes.json'') =
             (case manifest_write W (str ''books_to_track.json'') of
                Written \<Rightarrow>
                  (case manifest_write W (str ''hashes.json'') of
                     Written \<Rightarrow> Some (Hashes_json hashes)
                   | Cannot_open e \<Rightarrow> files st (str ''hashes.json'')
                   | Cannot_write e \<Rightarrow> Some Unfinished_json)
              | Cannot_open e \<Rightarrow> files st (str ''hashes.json'')
              | Cannot_write e \<Rightarrow> files st (str ''hashes.json'')) \<and>
           (r = Inr () \<longleftrightarrow>
              manifest_write W (str ''books_to_track.json'') = Written \<and>
              manifest_write W (str ''hashes.json'') = Written)"
        using Inr gb evs'_def nw proc inv fb fh ok by blast
      then show ?thesis using pr inw by (intro exI [of _ evs']) simp
    qed
  qed
qed

lemma process_book_recorded:
  assumes "detail_view W cn s t = Download_link (Some href)"
    and "retrieved W (download_url href) = Some content" and "py_int c = Inr n"
  shows "\<exists>st'. process_book W c cn (s, t) st track hashes =
           (st', Inr (track @ [\<lparr>be_id = book_id c s t, be_class = n, be_subject = s,
                                 be_title = t, be_pdf_path = pdf_path c s t,
                                 be_download_url = download_url href\<rparr>],
                      dict_set (book_id c s t) (sha256_hexdigest W content) hashes)) \<and>
           files st' (pdf_path c s t) = Some (Bytes content)"
proof -
  from retrieved_success [OF assms(2), of "say (Processing s t) st" c s t] obtain st' where
    d: "download_and_extract W (say (Processing s t) st) (download_url href) c s t =
          (st', Inr (Some \<lparr>md_id = book_id c s t, md_pdf_path = pdf_path c s t,
                           md_sha256 = sha256_hexdigest W content\<rparr>))" by blast
  from download_and_extract_success [OF d] assms(2)
  have "files st' (pdf_path c s t) = Some (Bytes content)" by auto
  then show ?thesis using d assms(1,3) by (simp add: process_book_def)
qed

lemma process_book_downloads:
  assumes "detail_view W cn s t = Download_link (Some href)"
    and "process_book W c cn (s, t) st track hashes = (st', res)"
  shows "Downloading (download_url href) \<in> set (printed st')"
proof -
  have d: "Downloading url \<in> set (printed st2)"
    if "download_and_extract W st1 url c s t = (st2, r)" for st1 st2 url r
    using that by (cases rule: download_and_extract_cases) auto
  from assms(2) show ?thesis
    using assms(1) by (cases rule: process_book_cases) (auto dest: d)
qed


section \<open>Claims about the run\<close>

text \<open>
  Claim C8, as amended. The archive reference that is fetched for an entry is the origin
  of the site, \<^verbatim>\<open>https://ncert.nic.in/\<close>, followed by the reference of the anchor as it
  stands. For a reference that is a path below the root of the site, written without a
  scheme and without a leading slash, this is the reference normalized against the origin
  of the site.
\<close>

theorem archive_reference_is_prefixed:
  "download_url href = str ''https://ncert.nic.in/'' @ href \<and>
   (\<not> is_absolute_url href \<and> \<not> startswith href (str ''/'') \<longrightarrow>
      download_url href = normalized_reference href) \<and>
   (\<forall>W c cn s t st track hashes st' res.
      detail_view W cn s t = Download_link (Some href) \<and>
      process_book W c cn (s, t) st track hashes = (st', res) \<longrightarrow>
      Downloading (download_url href) \<in> set (printed st'))"
  using process_book_downloads [of _ _ _ _ href]
  by (auto simp: download_url_def normalized_reference_def)

theorem archive_reference_is_prefixed_witness:
  "\<not> is_absolute_url (str ''textbook/pdf/aemh1dd.zip'') \<and>
   \<not> startswith (str ''textbook/pdf/aemh1dd.zip'') (str ''/'') \<and>
   download_url (str ''textbook/pdf/aemh1dd.zip'') =
     str ''https://ncert.nic.in/textbook/pdf/aemh1dd.zip'' \<and>
   normalized_reference (str ''textbook/pdf/aemh1dd.zip'') =
     str ''https://ncert.nic.in/textbook/pdf/aemh1dd.zip''"
  using archive_reference_is_prefixed [of "str ''textbook/pdf/aemh1dd.zip''"]
  by (simp add: is_absolute_url_def startswith_def normalized_reference_def download_url_def
      strs ord_def)

text \<open>
  Claim C8, as stated, fails on both kinds of reference it names. An absolute reference
  is not used as it is: the origin of the site is put in front of it as well. A
  site-root-relative reference ends up behind two slashes.
\<close>

theorem absolute_reference_prefixed_again:
  "is_absolute_url (str ''https://ncert.nic.in/textbook/pdf/aemh1dd.zip'') \<and>
   normalized_reference (str ''https://ncert.nic.in/textbook/pdf/aemh1dd.zip'') =
     str ''https://ncert.nic.in/textbook/pdf/aemh1dd.zip'' \<and>
   download_url (str ''https://ncert.nic.in/textbook/pdf/aemh1dd.zip'') =
     str ''https://ncert.nic.in/https://ncert.nic.in/textbook/pdf/aemh1dd.zip'' \<and>
   normalized_reference (str ''/textbook/pdf/aemh1dd.zip'') =
     str ''https://ncert.nic.in/textbook/pdf/aemh1dd.zip'' \<and>
   download_url (str ''/textbook/pdf/aemh1dd.zip'') =
     str ''https://ncert.nic.in//textbook/pdf/aemh1dd.zip''"
  by (simp add: is_absolute_url_def startswith_def normalized_reference_def download_url_def
      strs ord_def)

text \<open>
  Claim C1 says that an error in the processing of one entry is caught and never ends
  the run. The program run on a catalogue of two titles, where the detail view of the
  first never shows the download link and the second has a good archive, does otherwise:
  the wait of line 106 raises, the exception leaves the loop and \<^verbatim>\<open>main\<close>, the second
  title is never processed and no manifest is written.
\<close>

theorem main_aborted_by_missing_link:
  "snd (main gone_world (str ''1'') empty_disk) = Inl TimeoutException \<and>
   printed (fst (main gone_world (str ''1'') empty_disk)) =
     [Starting_scraper (str ''Class I''), Gathering, Found 2,
      Processing (str ''Math'') (str ''Gone''), Scraping_finished] \<and>
   files (fst (main gone_world (str ''1'') empty_disk)) (str ''books_to_track.json'') = None \<and>
   files (fst (main gone_world (str ''1'') empty_disk)) (str ''hashes.json'') = None \<and>
   detail_view gone_world (str ''Class I'') (str ''Math'') (str ''A b'') =
     Download_link (Some (str ''ab1.zip'')) \<and>
   retrieved gone_world (download_url (str ''ab1.zip'')) = Some [10, 11, 12]"
  by (simp add: main_defs demo_defs eval_defs path_defs)

text \<open>
  Claim C10. Two (subject, title) pairs whose sanitized subjects agree and whose
  sanitized titles agree get one identifier and one output path in a class. When an
  entry with that identifier has been recorded and the other pair is then retrieved with
  success, its catalogue entry is appended to the list, which keeps the earlier one; the
  output file holds the later content; the hash index keeps its keys, and the identifier
  now maps to the hash of the later content.
\<close>

theorem colliding_entries_share_id_and_path:
  assumes "sanitize_filename s1 = sanitize_filename s2"
    and "sanitize_filename t1 = sanitize_filename t2"
  shows "book_id c s1 t1 = book_id c s2 t2 \<and> pdf_path c s1 t1 = pdf_path c s2 t2 \<and>
    (\<forall>W cn st track hashes href content n e1.
       e1 \<in> set track \<and> be_id e1 = book_id c s1 t1 \<and> be_id e1 \<in> fst ` set hashes \<and>
       detail_view W cn s2 t2 = Download_link (Some href) \<and>
       retrieved W (download_url href) = Some content \<and> py_int c = Inr n \<longrightarrow>
       (\<exists>st' e2 hashes'.
          process_book W c cn (s2, t2) st track hashes = (st', Inr (track @ [e2], hashes')) \<and>
          be_id e2 = be_id e1 \<and> be_subject e2 = s2 \<and> be_title e2 = t2 \<and>
          be_pdf_path e2 = pdf_path c s1 t1 \<and>
          files st' (pdf_path c s1 t1) = Some (Bytes content) \<and>
          map_of hashes' (be_id e1) = Some (sha256_hexdigest W content) \<and>
          map fst hashes' = map fst hashes))"
proof -
  have ids: "book_id c s1 t1 = book_id c s2 t2" and paths: "pdf_path c s1 t1 = pdf_path c s2 t2"
    using assms by (simp_all add: book_id_def pdf_path_def pdf_filename_def)
  have "\<exists>st' e2 hashes'.
          process_book W c cn (s2, t2) st track hashes = (st', Inr (track @ [e2], hashes')) \<and>
          be_id e2 = be_id e1 \<and> be_subject e2 = s2 \<and> be_title e2 = t2 \<and>
          be_pdf_path e2 = pdf_path c s1 t1 \<and>
          files st' (pdf_path c s1 t1) = Some (Bytes content) \<and>
          map_of hashes' (be_id e1) = Some (sha256_hexdigest W content) \<and>
          map fst hashes' = map fst hashes"
    if "be_id e1 = book_id c s1 t1" "be_id e1 \<in> fst ` set hashes"
      "detail_view W cn s2 t2 = Download_link (Some href)"
      "retrieved W (download_url href) = Some content" "py_int c = Inr n"
    for W cn st track hashes href content n and e1 :: book_entry
  proof -
    from process_book_recorded [OF that(3,4,5), of st track hashes] obtain st' where
      pb: "process_book W c cn (s2, t2) st track hashes =
           (st', Inr (track @ [\<lparr>be_id = book_id c s2 t2, be_class = n, be_subject = s2,
                                 be_title = t2, be_pdf_path = pdf_path c s2 t2,
                                 be_download_url = download_url href\<rparr>],
                      dict_set (book_id c s2 t2) (sha256_hexdigest W content) hashes))"
      and f: "files st' (pdf_path c s2 t2) = Some (Bytes content)" by blast
    have k: "book_id c s2 t2 \<in> fst ` set hashes" using that(1,2) ids by simp
    show ?thesis
      using pb f that(1) ids paths dict_set_present [OF k, of "sha256_hexdigest W content"]
      by (rule_tac x = st' in exI,
          rule_tac x = "\<lparr>be_id = book_id c s2 t2, be_class = n, be_subject = s2,
              be_title = t2, be_pdf_path = pdf_path c s2 t2,
              be_download_url = download_url href\<rparr>" in exI,
          rule_tac x = "dict_set (book_id c s2 t2) (sha256_hexdigest W content) hashes" in exI)
        (simp add: dict_set_map_of)
  qed
  then show ?thesis using ids paths by blast
qed


theorem colliding_entries_share_id_and_path_witness:
  "sanitize_filename (str ''A b'') = sanitize_filename (str ''A_b'') \<and>
   str ''A b'' \<noteq> str ''A_b'' \<and>
   book_id (str ''1'') (str ''Math'') (str ''A b'') = str ''c1_math_a_b'' \<and>
   pdf_path (str ''1'') (str ''Math'') (str ''A b'') = str ''downloads/class_1/math_a_b.pdf'' \<and>
   files first_disk (str ''downloads/class_1/math_a_b.pdf'') = Some (Bytes [10, 11, 12]) \<and>
   (\<exists>st' e2.
      process_book demo_world (str ''1'') (str ''Class I'') (str ''Math'', str ''A_b'') first_disk
        [first_entry] [(str ''c1_math_a_b'', str ''sha256:'' @ [10, 11, 12])] =
        (st', Inr ([first_entry, e2], [(str ''c1_math_a_b'', str ''sha256:'' @ [20, 21])])) \<and>
      be_id e2 = str ''c1_math_a_b'' \<and> be_title e2 = str ''A_b'' \<and>
      files st' (str ''downloads/class_1/math_a_b.pdf'') = Some (Bytes [20, 21]))"
proof -
  have s: "sanitize_filename (str ''Math'') = sanitize_filename (str ''Math'')"
    and t: "sanitize_filename (str ''A b'') = sanitize_filename (str ''A_b'')"
    by (simp_all add: path_defs eval_defs)
  have i: "book_id (str ''1'') (str ''Math'') (str ''A b'') = str ''c1_math_a_b''"
    and p: "pdf_path (str ''1'') (str ''Math'') (str ''A b'') = str ''downloads/class_1/math_a_b.pdf''"
    by (simp_all add: path_defs eval_defs)
  have pre: "first_entry \<in> set [first_entry] \<and>
      be_id first_entry = book_id (str ''1'') (str ''Math'') (str ''A b'') \<and>
      be_id first_entry \<in> fst ` set [(str ''c1_math_a_b'', str ''sha256:'' @ [10, 11, 12])] \<and>
      detail_view demo_world (str ''Class I'') (str ''Math'') (str ''A_b'') =
        Download_link (Some (str ''ab2.zip'')) \<and>
      retrieved demo_world (download_url (str ''ab2.zip'')) = Some [20, 21] \<and>
      py_int (str ''1'') = Inr 1"
    unfolding i by (simp add: demo_defs eval_defs py_int_def is_digit_def first_entry_def)
  have id1: "be_id first_entry = str ''c1_math_a_b''" by (simp add: first_entry_def)
  from colliding_entries_share_id_and_path
    [OF s t, THEN conjunct2, THEN conjunct2, rule_format, OF pre, where st = first_disk]
  obtain st' e2 hashes' where
    pb: "process_book demo_world (str ''1'') (str ''Class I'') (str ''Math'', str ''A_b'') first_disk
        [first_entry] [(str ''c1_math_a_b'', str ''sha256:'' @ [10, 11, 12])] =
        (st', Inr ([first_entry] @ [e2], hashes'))"
    and e2: "be_id e2 = be_id first_entry" "be_title e2 = str ''A_b''"
    and f: "files st' (pdf_path (str ''1'') (str ''Math'') (str ''A b'')) = Some (Bytes [20, 21])"
    and h: "map_of hashes' (be_id first_entry) = Some (sha256_hexdigest demo_world [20, 21])"
       "map fst hashes' = map fst [(str ''c1_math_a_b'', str ''sha256:'' @ [10, 11, 12])]"
    by blast
  obtain k v where hs: "hashes' = [(k, v)]" using h(2) by (cases hashes') auto
  then have "k = str ''c1_math_a_b''" using h(2) by simp
  moreover have "v = str ''sha256:'' @ [20, 21]"
    using h(1) hs id1 \<open>k = str ''c1_math_a_b''\<close> by (simp add: demo_world_def)
  ultimately have hashes': "hashes' = [(str ''c1_math_a_b'', str ''sha256:'' @ [20, 21])]"
    using hs by simp
  have old: "files first_disk (str ''downloads/class_1/math_a_b.pdf'') = Some (Bytes [10, 11, 12])"
    by (simp add: first_disk_def)
  have ne: "str ''A b'' \<noteq> str ''A_b''" by (simp add: strs ord_def)
  have "\<exists>st' e2.
      process_book demo_world (str ''1'') (str ''Class I'') (str ''Math'', str ''A_b'') first_disk
        [first_entry] [(str ''c1_math_a_b'', str ''sha256:'' @ [10, 11, 12])] =
        (st', Inr ([first_entry, e2], [(str ''c1_math_a_b'', str ''sha256:'' @ [20, 21])])) \<and>
      be_id e2 = str ''c1_math_a_b'' \<and> be_title e2 = str ''A_b'' \<and>
      files st' (str ''downloads/class_1/math_a_b.pdf'') = Some (Bytes [20, 21])"
    using pb e2 f hashes' id1 unfolding p by (rule_tac x = st' in exI, rule_tac x = e2 in exI) simp
  then show ?thesis using t ne i p old by blast
qed

text \<open>
  Claim C9, as amended. In every run the writing of the manifest is started at most
  once, and only when every discovered entry has been processed; until then no manifest
  file is touched, so a run that ends with an exception before that point writes no
  manifest at all. What is written are entries of discovered books retrieved with
  success, and the keys of the hash index are their identifiers. The catalogue list is
  written first and the hash index second: the run completes when both are written, and
  when either write fails the run ends with that exception, the hash index as it was
  before the run or unfinished, and the catalogue list written, unfinished, or as it was.
\<close>

theorem manifest_flushed_once_at_end:
  assumes "main W class_number st = (st', r)"
  shows "\<exists>evs. printed st' = printed st @ evs \<and> count_list evs Writing_manifests \<le> 1 \<and>
     (if Writing_manifests \<in> set evs then
        (\<exists>class_name subjects books track hashes pre.
           map_of CLASS_MAP class_number = Some class_name \<and>
           subject_options W class_name = Inr subjects \<and>
           gather_books W class_name subjects [] = Inr books \<and>
           evs = pre @ Writing_manifests #
             (if r = Inr () then [Manifests_created, Scraping_finished]
              else [Scraping_finished]) \<and>
           Writing_manifests \<notin> set pre \<and>
           (\<forall>(s, t)\<in>set books. Processing s t \<in> set pre) \<and>
           list_all (success_entry W class_number class_name) track \<and>
           (\<forall>be\<in>set track. (be_subject be, be_title be) \<in> set books) \<and>
           fst ` set hashes = be_id ` set track \<and>
           files st' (str ''books_to_track.json'') =
             (case manifest_write W (str ''books_to_track.json'') of
                Written \<Rightarrow> Some (Books_json track)
              | Cannot_open e \<Rightarrow> files st (str ''books_to_track.json'')
              | Cannot_write e \<Rightarrow> Some Unfinished_json) \<and>
           files st' (str ''hashes.json'') =
             (case manifest_write W (str ''books_to_track.json'') of
                Written \<Rightarrow>
                  (case manifest_write W (str ''hashes.json'') of
                     Written \<Rightarrow> Some (Hashes_json hashes)
                   | Cannot_open e \<Rightarrow> files st (str ''hashes.json'')
                   | Cannot_write e \<Rightarrow> Some Unfinished_json)
              | Cannot_open e \<Rightarrow> files st (str ''hashes.json'')
              | Cannot_write e \<Rightarrow> files st (str ''hashes.json'')) \<and>
           (r = Inr () \<longleftrightarrow>
              manifest_write W (str ''books_to_track.json'') = Written \<and>
              manifest_write W (str ''hashes.json'') = Written))
      else
        (\<exists>e. r = Inl e) \<and>
        files st' (str ''books_to_track.json'') = files st (str ''books_to_track.json'') \<and>
        files st' (str ''hashes.json'') = files st (str ''hashes.json''))"
proof (cases "map_of CLASS_MAP class_number")
  case None
  then have "st' = st" "\<exists>e. r = Inl e"
    using assms by (auto simp: main_def parse_arguments_def split: if_splits)
  then show ?thesis by (intro exI [of _ "[]"]) auto
next
  case (Some cn)
  then have "class_number \<in> set (map fst CLASS_MAP)"
    by (metis map_of_eq_None_iff option.distinct(1) set_map)
  then have pa: "parse_arguments class_number = Inr class_number"
    by (simp add: parse_arguments_def)
  define st0 where "st0 = say (Starting_scraper cn) st"
  obtain st1 r1 where mt: "main_try W class_number cn st0 = (st1, r1)"
    by (cases "main_try W class_number cn st0")
  have st': "st' = say Scraping_finished st1" and r: "r = r1"
    using assms Some mt pa by (simp_all add: main_def st0_def)
  from main_try_run [OF mt] obtain evs1 where
    p1: "printed st1 = printed st0 @ evs1"
    and c1: "if Writing_manifests \<in> set evs1 then
        (\<exists>subjects books track hashes pre.
           subject_options W cn = Inr subjects \<and> gather_books W cn subjects [] = Inr books \<and>
           evs1 = pre @ Writing_manifests # (if r1 = Inr () then [Manifests_created] else []) \<and>
           Writing_manifests \<notin> set pre \<and>
           (\<forall>(s, t)\<in>set books. Processing s t \<in> set pre) \<and>
           list_all (success_entry W class_number cn) track \<and>
           (\<forall>be\<in>set track. (be_subject be, be_title be) \<in> set books) \<and>
           fst ` set hashes = be_id ` set track \<and>
           files st1 (str ''books_to_track.json'') =
             (case manifest_write W (str ''books_to_track.json'') of
                Written \<Rightarrow> Some (Books_json track)
              | Cannot_open e \<Rightarrow> files st0 (str ''books_to_track.json'')
              | Cannot_write e \<Rightarrow> Some Unfinished_json) \<and>
           files st1 (str ''hashes.json'') =
             (case manifest_write W (str ''books_to_track.json'') of
                Written \<Rightarrow>
                  (case manifest_write W (str ''hashes.json'') of
                     Written \<Rightarrow> Some (Hashes_json hashes)
                   | Cannot_open e \<Rightarrow> files st0 (str ''hashes.json'')
                   | Cannot_write e \<Rightarrow> Some Unfinished_json)
              | Cannot_open e \<Rightarrow> files st0 (str ''hashes.json'')
              | Cannot_write e \<Rightarrow> files st0 (str ''hashes.json'')) \<and>
           (r1 = Inr () \<longleftrightarrow>
              manifest_write W (str ''books_to_track.json'') = Written \<and>
              manifest_write W (str ''hashes.json'') = Written))
      else
        (\<exists>e. r1 = Inl e) \<and>
        files st1 (str ''books_to_track.json'') = files st0 (str ''books_to_track.json'') \<and>
        files st1 (str ''hashes.json'') = files st0 (str ''hashes.json'')"
    by blast
  define evs where "evs = Starting_scraper cn # evs1 @ [Scraping_finished]"
  have p: "printed st' = printed st @ evs" using st' p1 by (simp add: evs_def st0_def)
  have mem: "Writing_manifests \<in> set evs \<longleftrightarrow> Writing_manifests \<in> set evs1"
    by (simp add: evs_def)
  have fs: "files st' = files st1" "files st0 = files st" using st' by (simp_all add: st0_def)
  show ?thesis
  proof (cases "Writing_manifests \<in> set evs1")
    case False
    then have "\<exists>e. r = Inl e"
      and "files st' (str ''books_to_track.json'') = files st (str ''books_to_track.json'')"
      and "files st' (str ''hashes.json'') = files st (str ''hashes.json'')"
      using c1 r fs by simp_all
    moreover have "count_list evs Writing_manifests \<le> 1"
      using False mem by (simp add: count_notin)
    ultimately show ?thesis using p mem False by (intro exI [of _ evs]) simp
  next
    case True
    with c1 have "\<exists>subjects books track hashes pre.
           subject_options W cn = Inr subjects \<and> gather_books W cn subjects [] = Inr books \<and>
           evs1 = pre @ Writing_manifests # (if r1 = Inr () then [Manifests_created] else []) \<and>
           Writing_manifests \<notin> set pre \<and>
           (\<forall>(s, t)\<in>set books. Processing s t \<in> set pre) \<and>
           list_all (success_entry W class_number cn) track \<and>
           (\<forall>be\<in>set track. (be_subject be, be_title be) \<in> set books) \<and>
           fst ` set hashes = be_id ` set track \<and>
           files st1 (str ''books_to_track.json'') =
             (case manifest_write W (str ''books_to_track.json'') of
                Written \<Rightarrow> Some (Books_json track)
              | Cannot_open e \<Rightarrow> files st0 (str ''books_to_track.json'')
              | Cannot_write e \<Rightarrow> Some Unfinished_json) \<and>
           files st1 (str ''hashes.json'') =
             (case manifest_write W (str ''books_to_track.json'') of
                Written \<Rightarrow>
                  (case manifest_write W (str ''hashes.json'') of
                     Written \<Rightarrow> Some (Hashes_json hashes)
                   | Cannot_open e \<Rightarrow> files st0 (str ''hashes.json'')
                   | Cannot_write e \<Rightarrow> Some Unfinished_json)
              | Cannot_open e \<Rightarrow> files st0 (str ''hashes.json'')
              | Cannot_write e \<Rightarrow> files st0 (str ''hashes.json'')) \<and>
           (r1 = Inr () \<longleftrightarrow>
              manifest_write W (str ''books_to_track.json'') = Written \<and>
              manifest_write W (str ''hashes.json'') = Written)"
      by (simp only: if_True)
    then obtain subjects books track hashes pre where
      w: "subject_options W cn = Inr subjects" "gather_books W cn subjects [] = Inr books"
         "evs1 = pre @ Writing_manifests # (if r1 = Inr () then [Manifests_created] else [])"
         "Writing_manifests \<notin> set pre"
         "\<forall>(s, t)\<in>set books. Processing s t \<in> set pre"
         "list_all (success_entry W class_number cn) track"
         "\<forall>be\<in>set track. (be_subject be, be_title be) \<in> set books"
         "fst ` set hashes = be_id ` set track"
         "files st1 (str ''books_to_track.json'') =
             (case manifest_write W (str ''books_to_track.json'') of
                Written \<Rightarrow> Some (Books_json track)
              | Cannot_open e \<Rightarrow> files st0 (str ''books_to_track.json'')
              | Cannot_write e \<Rightarrow> Some Unfinished_json)"
         "files st1 (str ''hashes.json'') =
             (case manifest_write W (str ''books_to_track.json'') of
                Written \<Rightarrow>
                  (case manifest_write W (str ''hashes.json'') of
                     Written \<Rightarrow> Some (Hashes_json hashes)
                   | Cannot_open e \<Rightarrow> files st0 (str ''hashes.json'')
                   | Cannot_write e \<Rightarrow> Some Unfinished_json)
              | Cannot_open e \<Rightarrow> files st0 (str ''hashes.json'')
              | Cannot_write e \<Rightarrow> files st0 (str ''hashes.json''))"
         "r1 = Inr () \<longleftrightarrow>
              manifest_write W (str ''books_to_track.json'') = Written \<and>
              manifest_write W (str ''hashes.json'') = Written"
      by (elim exE conjE) (rule that, assumption+)
    define pre' where "pre' = Starting_scraper cn # pre"
    have e: "evs = pre' @ Writing_manifests #
        (if r = Inr () then [Manifests_created, Scraping_finished] else [Scraping_finished])"
      using w(3) r by (simp add: evs_def pre'_def)
    have nw: "Writing_manifests \<notin> set pre'" using w(4) by (simp add: pre'_def)
    have all: "\<forall>(s, t)\<in>set books. Processing s t \<in> set pre'" using w(5) by (auto simp: pre'_def)
    have cnt: "count_list evs Writing_manifests \<le> 1"
      using nw by (simp add: e count_notin)
    have fb: "files st' (str ''books_to_track.json'') =
             (case manifest_write W (str ''books_to_track.json'') of
                Written \<Rightarrow> Some (Books_json track)
              | Cannot_open e \<Rightarrow> files st (str ''books_to_track.json'')
              | Cannot_write e \<Rightarrow> Some Unfinished_json)"
      using w(9) fs by (simp split: write_outcome.splits)
    have fh: "files st' (str ''hashes.json'') =
             (case manifest_write W (str ''books_to_track.json'') of
                Written \<Rightarrow>
                  (case manifest_write W (str ''hashes.json'') of
                     Written \<Rightarrow> Some (Hashes_json hashes)
                   | Cannot_open e \<Rightarrow> files st (str ''hashes.json'')
                   | Cannot_write e \<Rightarrow> Some Unfinished_json)
              | Cannot_open e \<Rightarrow> files st (str ''hashes.json'')
              | Cannot_write e \<Rightarrow> files st (str ''hashes.json''))"
      using w(10) fs by (simp split: write_outcome.splits)
    have ok: "r = Inr () \<longleftrightarrow>
              manifest_write W (str ''books_to_track.json'') = Written \<and>
              manifest_write W (str ''hashes.json'') = Written"
      using w(11) r by simp
    have "\<exists>class_name subjects books track hashes pre.
           map_of CLASS_MAP class_number = Some class_name \<and>
           subject_options W class_name = Inr subjects \<and>
           gather_books W class_name subjects [] = Inr books \<and>
           evs = pre @ Writing_manifests #
             (if r = Inr () then [Manifests_created, Scraping_finished]
              else [Scraping_finished]) \<and>
           Writing_manifests \<notin> set pre \<and>
           (\<forall>(s, t)\<in>set books. Processing s t \<in> set pre) \<and>
           list_all (success_entry W class_number class_name) track \<and>
           (\<forall>be\<in>set track. (be_subject be, be_title be) \<in> set books) \<and>
           fst ` set hashes = be_id ` set track \<and>
           files st' (str ''books_to_track.json'') =
             (case manifest_write W (str ''books_to_track.json'') of
                Written \<Rightarrow> Some (Books_json track)
              | Cannot_open e \<Rightarrow> files st (str ''books_to_track.json'')
              | Cannot_write e \<Rightarrow> Some Unfinished_json) \<and>
           files st' (str ''hashes.json'') =
             (case manifest_write W (str ''books_to_track.json'') of
                Written \<Rightarrow>
                  (case manifest_write W (str ''hashes.json'') of
                     Written \<Rightarrow> Some (Hashes_json hashes)
                   | Cannot_open e \<Rightarrow> files st (str ''hashes.json'')
                   | Cannot_write e \<Rightarrow> Some Unfinished_json)
              | Cannot_open e \<Rightarrow> files st (str ''hashes.json'')
              | Cannot_write e \<Rightarrow> files st (str ''hashes.json'')) \<and>
           (r = Inr () \<longleftrightarrow>
              manifest_write W (str ''books_to_track.json'') = Written \<and>
              manifest_write W (str ''hashes.json'') = Written)"
      by (rule exI [of _ cn], rule exI [of _ subjects], rule exI [of _ books],
          rule exI [of _ track], rule exI [of _ hashes], rule exI [of _ pre'],
          intro conjI)
        (fact Some w(1,2,6,7,8) e nw all fb fh ok)+
    moreover have "Writing_manifests \<in> set evs" using mem True by simp
    ultimately show ?thesis
      using p cnt by (intro exI [of _ evs] conjI) (simp_all only: if_True)
  qed
qed

theorem manifest_flushed_once_at_end_witness:
  "(\<exists>st'. main demo_world (str ''1'') empty_disk = (st', Inr ()) \<and>
      files st' (str ''books_to_track.json'') =
        Some (Books_json
          [first_entry,
           \<lparr>be_id = str ''c1_math_a_b'', be_class = 1, be_subject = str ''Math'',
            be_title = str ''A_b'', be_pdf_path = str ''downloads/class_1/math_a_b.pdf'',
            be_download_url = str ''https://ncert.nic.in/ab2.zip''\<rparr>]) \<and>
      files st' (str ''hashes.json'') =
        Some (Hashes_json [(str ''c1_math_a_b'', str ''sha256:'' @ [20, 21])]) \<and>
      (\<exists>evs. printed st' = printed empty_disk @ evs \<and> count_list evs Writing_manifests \<le> 1)) \<and>
   (\<exists>st'. main gone_world (str ''1'') empty_disk = (st', Inl TimeoutException) \<and>
      Writing_manifests \<notin> set (printed st') \<and>
      files st' (str ''books_to_track.json'') = None \<and>
      files st' (str ''hashes.json'') = None)"
proof -
  obtain st1 r1 where m1: "main demo_world (str ''1'') empty_disk = (st1, r1)"
    by (cases "main demo_world (str ''1'') empty_disk")
  have "snd (main demo_world (str ''1'') empty_disk) = Inr ()"
    by (simp add: main_defs demo_defs eval_defs path_defs)
  then have r1: "r1 = Inr ()" using m1 by simp
  have "files (fst (main demo_world (str ''1'') empty_disk)) (str ''books_to_track.json'') =
        Some (Books_json
          [first_entry,
           \<lparr>be_id = str ''c1_math_a_b'', be_class = 1, be_subject = str ''Math'',
            be_title = str ''A_b'', be_pdf_path = str ''downloads/class_1/math_a_b.pdf'',
            be_download_url = str ''https://ncert.nic.in/ab2.zip''\<rparr>])"
    by (simp add: main_defs demo_defs eval_defs path_defs first_entry_def)
  moreover have "files (fst (main demo_world (str ''1'') empty_disk)) (str ''hashes.json'') =
        Some (Hashes_json [(str ''c1_math_a_b'', str ''sha256:'' @ [20, 21])])"
    by (simp add: main_defs demo_defs eval_defs path_defs)
  moreover from manifest_flushed_once_at_end [OF m1]
  have "\<exists>evs. printed st1 = printed empty_disk @ evs \<and> count_list evs Writing_manifests \<le> 1"
    by blast
  ultimately have ok: "\<exists>st'. main demo_world (str ''1'') empty_disk = (st', Inr ()) \<and>
      files st' (str ''books_to_track.json'') =
        Some (Books_json
          [first_entry,
           \<lparr>be_id = str ''c1_math_a_b'', be_class = 1, be_subject = str ''Math'',
            be_title = str ''A_b'', be_pdf_path = str ''downloads/class_1/math_a_b.pdf'',
            be_download_url = str ''https://ncert.nic.in/ab2.zip''\<rparr>]) \<and>
      files st' (str ''hashes.json'') =
        Some (Hashes_json [(str ''c1_math_a_b'', str ''sha256:'' @ [20, 21])]) \<and>
      (\<exists>evs. printed st' = printed empty_disk @ evs \<and> count_list evs Writing_manifests \<le> 1)"
    using m1 r1 by simp
  obtain st2 r2 where m2: "main gone_world (str ''1'') empty_disk = (st2, r2)"
    by (cases "main gone_world (str ''1'') empty_disk")
  have "snd (main gone_world (str ''1'') empty_disk) = Inl TimeoutException"
    by (simp add: main_defs demo_defs eval_defs path_defs)
  then have r2: "r2 = Inl TimeoutException" using m2 by simp
  have "Writing_manifests \<notin> set (printed (fst (main gone_world (str ''1'') empty_disk)))"
    by (simp add: main_defs demo_defs eval_defs path_defs)
  then have nw: "Writing_manifests \<notin> set (printed st2)" using m2 by simp
  from manifest_flushed_once_at_end [OF m2] obtain evs where
    e: "printed st2 = printed empty_disk @ evs"
    "if Writing_manifests \<in> set evs then True
     else files st2 (str ''books_to_track.json'') = files empty_disk (str ''books_to_track.json'') \<and>
          files st2 (str ''hashes.json'') = files empty_disk (str ''hashes.json'')"
    by (auto split: if_splits)
  have "Writing_manifests \<notin> set evs" using nw e(1) by simp
  then have "files st2 (str ''books_to_track.json'') = None" "files st2 (str ''hashes.json'') = None"
    using e(2) by (simp_all add: empty_disk_def)
  then show ?thesis using ok m2 r2 nw by simp
qed

text \<open>
  Claim C9, as stated, fails when the second manifest file cannot be written: the run
  ends with the exception, and the catalogue list has been written without the hash
  index.
\<close>

theorem manifest_half_written_on_failed_flush:
  "snd (main full_disk_world (str ''1'') empty_disk) = Inl OSError \<and>
   files (fst (main full_disk_world (str ''1'') empty_disk)) (str ''books_to_track.json'') =
     Some (Books_json
       [first_entry,
        \<lparr>be_id = str ''c1_math_a_b'', be_class = 1, be_subject = str ''Math'',
         be_title = str ''A_b'', be_pdf_path = str ''downloads/class_1/math_a_b.pdf'',
         be_download_url = str ''https://ncert.nic.in/ab2.zip''\<rparr>]) \<and>
   files (fst (main full_disk_world (str ''1'') empty_disk)) (str ''hashes.json'') = None"
  by (simp add: main_defs demo_defs eval_defs path_defs first_entry_def)


end
